theory Spec2Isabelle
  imports Main
begin

section \<open>Python text primitives used by the pipelines\<close>

text \<open>
  A Python \<^verbatim>\<open>str\<close> is modelled as a \<^typ>\<open>string\<close>: one \<^typ>\<open>char\<close> per code point, which
  covers the code points below 256. \<^verbatim>\<open>len\<close> is \<^const>\<open>length\<close>.

  \<^verbatim>\<open>str.strip()\<close> without argument removes leading and trailing whitespace. Below
  code point 256 Python's whitespace characters are 0x09..0x0D, 0x1C..0x1F, 0x20, 0x85
  and 0xA0.
\<close>

definition isspace :: "char \<Rightarrow> bool" where
  "isspace c =
     (let n = (of_char c :: nat)
      in (9 \<le> n \<and> n \<le> 13) \<or> (28 \<le> n \<and> n \<le> 32) \<or> n = 133 \<or> n = 160)"

definition strip :: "string \<Rightarrow> string" where
  "strip s = rev (dropWhile isspace (rev (dropWhile isspace s)))"

text \<open>
  Python slicing \<^verbatim>\<open>xs[i:j]\<close> with integer bounds: a negative bound counts from the end,
  and every bound is clamped into \<open>0..len(xs)\<close>. \<open>slice_span\<close> is the pair of
  positions that the slice really covers; the slice is empty when the second is not
  above the first.
\<close>

definition slice_index :: "int \<Rightarrow> nat \<Rightarrow> nat" where
  "slice_index i n =
     (if i < 0 then (if i + int n < 0 then 0 else nat (i + int n))
      else (if int n < i then n else nat i))"

definition slice_span :: "'a list \<Rightarrow> int \<Rightarrow> int \<Rightarrow> nat \<times> nat" where
  "slice_span xs i j = (slice_index i (length xs), slice_index j (length xs))"

definition py_slice :: "'a list \<Rightarrow> int \<Rightarrow> int \<Rightarrow> 'a list" where
  "py_slice xs i j = (case slice_span xs i j of (lo, hi) \<Rightarrow> drop lo (take hi xs))"

section \<open>Chunker: \<^verbatim>\<open>chunk_text\<close> of ingest.py\<close>

definition CHUNK_SIZE :: int where
  "CHUNK_SIZE = 800"

definition CHUNK_OVERLAP :: int where
  "CHUNK_OVERLAP = 100"

text \<open>
  \<^verbatim>\<open>
  def chunk_text(text, chunk_size=CHUNK_SIZE, overlap=CHUNK_OVERLAP):
      chunks, start = [], 0
      while start < len(text):
          end = min(start + chunk_size, len(text))
          chunk = text[start:end].strip()
          if chunk:
              chunks.append(chunk)
          start += chunk_size - overlap
      return chunks
  \<close>
  The parameters are Python integers, so they are \<^typ>\<open>int\<close> here. The \<^verbatim>\<open>while\<close> loop
  does not return when \<open>chunk_size \<le> overlap\<close> and the text is not empty; the loop is
  therefore a partial function in the option monad, where \<open>None\<close> stands for a loop that
  runs forever.
\<close>

partial_function (option)
  chunk_loop :: "string \<Rightarrow> int \<Rightarrow> int \<Rightarrow> int \<Rightarrow> string list \<Rightarrow> string list option"
where
  "chunk_loop text chunk_size overlap start chunks =
     (if start < int (length text) then
        (let end = min (start + chunk_size) (int (length text));
             chunk = strip (py_slice text start end)
         in chunk_loop text chunk_size overlap (start + (chunk_size - overlap))
              (if chunk \<noteq> [] then chunks @ [chunk] else chunks))
      else Some chunks)"

definition chunk_text :: "string \<Rightarrow> int \<Rightarrow> int \<Rightarrow> string list option" where
  "chunk_text text chunk_size overlap = chunk_loop text chunk_size overlap 0 []"

text \<open>
  The same loop, recording for every iteration the source span of the window
  \<^verbatim>\<open>text[start:end]\<close> before it is trimmed, whether or not the trimmed window is kept.
\<close>

partial_function (option)
  window_loop :: "string \<Rightarrow> int \<Rightarrow> int \<Rightarrow> int \<Rightarrow> (nat \<times> nat) list \<Rightarrow> (nat \<times> nat) list option"
where
  "window_loop text chunk_size overlap start spans =
     (if start < int (length text) then
        (let end = min (start + chunk_size) (int (length text))
         in window_loop text chunk_size overlap (start + (chunk_size - overlap))
              (spans @ [slice_span text start end]))
      else Some spans)"

definition chunk_windows :: "string \<Rightarrow> int \<Rightarrow> int \<Rightarrow> (nat \<times> nat) list option" where
  "chunk_windows text chunk_size overlap = window_loop text chunk_size overlap 0 []"

text \<open>The number of text positions that two spans have in common.\<close>

definition shared :: "nat \<times> nat \<Rightarrow> nat \<times> nat \<Rightarrow> nat" where
  "shared a b = min (snd a) (snd b) - max (fst a) (fst b)"

text \<open>
  The windows the loop visits from a given cursor, as a predicate on a list of cursor
  positions: the list is the sequence of values of \<^verbatim>\<open>start\<close> at which the loop body runs.
\<close>

fun cursors :: "nat \<Rightarrow> int \<Rightarrow> int \<Rightarrow> int \<Rightarrow> int list \<Rightarrow> bool" where
  "cursors n chunk_size overlap start [] = (\<not> start < int n)"
| "cursors n chunk_size overlap start (s # ss) =
     (start < int n \<and> s = start \<and> cursors n chunk_size overlap (start + (chunk_size - overlap)) ss)"

definition window_of :: "string \<Rightarrow> int \<Rightarrow> int \<Rightarrow> nat \<times> nat" where
  "window_of text chunk_size start =
     slice_span text start (min (start + chunk_size) (int (length text)))"

definition emit :: "string \<Rightarrow> int \<Rightarrow> int list \<Rightarrow> string list" where
  "emit text chunk_size ss =
     filter (\<lambda>c. c \<noteq> [])
       (map (\<lambda>s. strip (py_slice text s (min (s + chunk_size) (int (length text))))) ss)"

declare chunk_loop.simps [code]

declare window_loop.simps [code]

section \<open>Ingestion pipeline: ingest.py\<close>

subsection \<open>Data\<close>

text \<open>
  A \<^verbatim>\<open>pathlib.Path\<close> as far as the code reads it: the directory it lies in, its
  \<^verbatim>\<open>name\<close> (the key of the state mapping) and its \<^verbatim>\<open>stem\<close> (the prefix of the chunk
  identifiers).
\<close>

record path =
  parent :: string
  name :: string
  stem :: string

text \<open>The metadata dictionary and the record that \<^verbatim>\<open>collection.add\<close> stores under an id.\<close>

record 't chunk_metadata =
  filename :: string
  chunk_index :: nat
  timestamp :: 't

record ('t, 'e) entry =
  entry_embedding :: "'e list"
  entry_document :: string
  entry_metadata :: "'t chunk_metadata"

datatype error = FileNotFoundError

text \<open>
  The collaborators of the pipeline, as the code sees them. Timestamps (\<^verbatim>\<open>st_mtime\<close>,
  \<^verbatim>\<open>time.time()\<close>) are values of a linearly ordered type \<open>'t\<close> with a zero.
  \<^item> \<open>st_mtime\<close>: \<^verbatim>\<open>pdf_path.stat().st_mtime\<close>; \<open>None\<close> when \<^verbatim>\<open>stat\<close> raises.
  \<^item> \<open>pdf_reader\<close>: the page texts \<^verbatim>\<open>page.extract_text()\<close> of \<^verbatim>\<open>PdfReader(path).pages\<close>
    (a page text may be \<^verbatim>\<open>None\<close>); \<open>None\<close> when reading raises.
  \<^item> \<open>ocrmypdf_ocr\<close>: whether \<^verbatim>\<open>ocrmypdf.ocr(input, output, ...)\<close> returns (\<open>True\<close>) or
    raises (\<open>False\<close>).
  \<^item> \<open>client_embeddings\<close>: the \<^verbatim>\<open>"embedding"\<close> of the response of the embedding service to
    its \<open>n\<close>-th request (\<open>n\<close> counts the requests made before); \<open>None\<close> when the
    request raises. Two requests for the same text may be answered differently.
  \<^item> \<open>time_time\<close>: the clock read when the \<open>n\<close>-th record is added.
\<close>

record ('t, 'e) env =
  st_mtime :: "path \<Rightarrow> 't option"
  pdf_reader :: "path \<Rightarrow> string option list option"
  ocrmypdf_ocr :: "path \<Rightarrow> path \<Rightarrow> bool"
  gettempdir :: string
  client_embeddings :: "nat \<Rightarrow> string \<Rightarrow> 'e list option"
  time_time :: "nat \<Rightarrow> 't"

text \<open>
  What the pipeline changes: the state file (\<open>None\<close> while the file does not exist), the
  collection of the vector index, and a log of every call of a collaborator, in order:
  the paths given to \<^verbatim>\<open>extract_text_from_pdf\<close> and to the OCR engine, the texts sent to the
  embedding service and the ids given to \<^verbatim>\<open>collection.add\<close>.
\<close>

record ('t, 'e) world =
  state_file :: "(string \<rightharpoonup> 't) option"
  collection :: "string \<rightharpoonup> ('t, 'e) entry"
  extract_log :: "path list"
  ocr_log :: "path list"
  embed_log :: "string list"
  add_log :: "string list"

subsection \<open>State management\<close>

text \<open>
  \<^verbatim>\<open>
  def load_state():
      if STATE_FILE.exists():
          with open(STATE_FILE, "r") as f:
              return json.load(f)
      return {}

  def save_state(state):
      with open(STATE_FILE, "w") as f:
          json.dump(state, f, indent=2)
  \<close>
\<close>

definition load_state :: "('t, 'e) world \<Rightarrow> (string \<rightharpoonup> 't)" where
  "load_state w = (case state_file w of None \<Rightarrow> Map.empty | Some state \<Rightarrow> state)"

definition save_state :: "(string \<rightharpoonup> 't) \<Rightarrow> ('t, 'e) world \<Rightarrow> ('t, 'e) world" where
  "save_state state w = w\<lparr>state_file := Some state\<rparr>"

text \<open>\<^verbatim>\<open>state.get(key, 0)\<close>\<close>

definition state_get :: "(string \<rightharpoonup> 't::zero) \<Rightarrow> string \<Rightarrow> 't" where
  "state_get state key = (case state key of None \<Rightarrow> 0 | Some v \<Rightarrow> v)"

subsection \<open>PDF handling\<close>

text \<open>
  \<^verbatim>\<open>
  def extract_text_from_pdf(pdf_path):
      try:
          reader = PdfReader(pdf_path)
          return "".join(page.extract_text() or "" for page in reader.pages).strip()
      except Exception as e:
          return ""
  \<close>
\<close>

definition extract_text_from_pdf ::
  "('t, 'e) env \<Rightarrow> path \<Rightarrow> ('t, 'e) world \<Rightarrow> string \<times> ('t, 'e) world" where
  "extract_text_from_pdf e pdf_path w =
     ((case pdf_reader e pdf_path of
         None \<Rightarrow> []
       | Some pages \<Rightarrow> strip (concat (map (\<lambda>t. case t of None \<Rightarrow> [] | Some s \<Rightarrow> s) pages))),
      w\<lparr>extract_log := extract_log w @ [pdf_path]\<rparr>)"

text \<open>
  \<^verbatim>\<open>
  def run_ocr_if_needed(pdf_path):
      text = extract_text_from_pdf(pdf_path)
      if text:
          return pdf_path
      tmp_dir = Path(tempfile.gettempdir())
      ocr_path = tmp_dir / f"ocr_{pdf_path.stem}.pdf"
      try:
          ocrmypdf.ocr(str(pdf_path), str(ocr_path), ...)
          return ocr_path
      except Exception as e:
          return pdf_path
  \<close>
\<close>

definition run_ocr_if_needed ::
  "('t, 'e) env \<Rightarrow> path \<Rightarrow> ('t, 'e) world \<Rightarrow> path \<times> ('t, 'e) world" where
  "run_ocr_if_needed e pdf_path w =
     (case extract_text_from_pdf e pdf_path w of (text, w1) \<Rightarrow>
        if text \<noteq> [] then (pdf_path, w1)
        else
          (let ocr_path = \<lparr>parent = gettempdir e,
                           name = ''ocr_'' @ stem pdf_path @ ''.pdf'',
                           stem = ''ocr_'' @ stem pdf_path\<rparr>;
               w2 = w1\<lparr>ocr_log := ocr_log w1 @ [pdf_path]\<rparr>
           in if ocrmypdf_ocr e pdf_path ocr_path then (ocr_path, w2) else (pdf_path, w2)))"

subsection \<open>Embedding and the vector index\<close>

text \<open>
  \<^verbatim>\<open>
  def embed_text(chunk):
      try:
          response = client.embeddings(model=EMBED_MODEL, prompt=chunk)
          return response["embedding"]
      except Exception as e:
          return None
  \<close>
\<close>

definition embed_text ::
  "('t, 'e) env \<Rightarrow> string \<Rightarrow> ('t, 'e) world \<Rightarrow> 'e list option \<times> ('t, 'e) world" where
  "embed_text e chunk w =
     (client_embeddings e (length (embed_log w)) chunk, w\<lparr>embed_log := embed_log w @ [chunk]\<rparr>)"

text \<open>\<^verbatim>\<open>not embedding\<close>: true of \<^verbatim>\<open>None\<close> and of the empty list.\<close>

definition falsy :: "'e list option \<Rightarrow> bool" where
  "falsy embedding = (case embedding of None \<Rightarrow> True | Some v \<Rightarrow> v = [])"

text \<open>The decimal digits of a natural number, as \<^verbatim>\<open>f"{i}"\<close> prints an index.\<close>

fun str_nat :: "nat \<Rightarrow> string" where
  "str_nat n =
     (if n < 10 then [char_of (48 + n)]
      else str_nat (n div 10) @ [char_of (48 + n mod 10)])"

text \<open>\<^verbatim>\<open>doc_id = f"{pdf_path.stem}::chunk_{i}"\<close>\<close>

definition doc_id :: "path \<Rightarrow> nat \<Rightarrow> string" where
  "doc_id pdf_path i = stem pdf_path @ ''::chunk_'' @ str_nat i"

text \<open>\<^verbatim>\<open>collection.get(ids=[doc_id])["ids"]\<close>: the ids among the requested ones that exist.\<close>

definition collection_get :: "('t, 'e) world \<Rightarrow> string \<Rightarrow> string list" where
  "collection_get w i = (case collection w i of None \<Rightarrow> [] | Some x \<Rightarrow> [i])"

text \<open>\<^verbatim>\<open>collection.add(ids=[doc_id], embeddings=[embedding], documents=[chunk], metadatas=[metadata])\<close>\<close>

definition collection_add ::
  "string \<Rightarrow> 'e list \<Rightarrow> string \<Rightarrow> 't chunk_metadata \<Rightarrow> ('t, 'e) world \<Rightarrow> ('t, 'e) world" where
  "collection_add i v chunk md w =
     w\<lparr>collection := (collection w)(i \<mapsto> \<lparr>entry_embedding = v, entry_document = chunk, entry_metadata = md\<rparr>),
       add_log := add_log w @ [i]\<rparr>"

text \<open>\<^verbatim>\<open>enumerate(chunks)\<close>\<close>

definition enumerate_list :: "'a list \<Rightarrow> (nat \<times> 'a) list" where
  "enumerate_list xs = zip [0..<length xs] xs"

subsection \<open>Core ingestion logic\<close>

text \<open>
  The body of the loop of \<^verbatim>\<open>ingest_single_pdf\<close>, on the pair of the counter
  \<^verbatim>\<open>new_chunks\<close> and the world:
  \<^verbatim>\<open>
      for i, chunk in enumerate(tqdm(chunks, ...)):
          embedding = embed_text(chunk)
          if not embedding:
              continue
          doc_id = f"{pdf_path.stem}::chunk_{i}"
          existing = collection.get(ids=[doc_id])
          if existing and existing["ids"]:
              continue  # Skip duplicates
          metadata = {"filename": pdf_path.name, "chunk_index": i, "timestamp": time.time()}
          collection.add(ids=[doc_id], embeddings=[embedding], documents=[chunk],
                         metadatas=[metadata])
          new_chunks += 1
          time.sleep(CHUNK_SLEEP)
  \<close>
\<close>

definition ingest_chunk ::
  "('t, 'e) env \<Rightarrow> path \<Rightarrow> nat \<times> string \<Rightarrow> nat \<times> ('t, 'e) world \<Rightarrow> nat \<times> ('t, 'e) world" where
  "ingest_chunk e pdf_path ic s =
     (case ic of (i, chunk) \<Rightarrow> case s of (new_chunks, w) \<Rightarrow>
      case embed_text e chunk w of (embedding, w1) \<Rightarrow>
        (case embedding of
           None \<Rightarrow> (new_chunks, w1)
         | Some v \<Rightarrow>
             if v = [] then (new_chunks, w1)
             else if collection_get w1 (doc_id pdf_path i) \<noteq> [] then (new_chunks, w1)
             else
               (let md = \<lparr>filename = name pdf_path, chunk_index = i,
                          timestamp = time_time e (length (add_log w1))\<rparr>
                in (new_chunks + 1, collection_add (doc_id pdf_path i) v chunk md w1))))"

fun ingest_loop ::
  "('t, 'e) env \<Rightarrow> path \<Rightarrow> (nat \<times> string) list \<Rightarrow> nat \<times> ('t, 'e) world \<Rightarrow> nat \<times> ('t, 'e) world" where
  "ingest_loop e pdf_path [] s = s"
| "ingest_loop e pdf_path (ic # ics) s = ingest_loop e pdf_path ics (ingest_chunk e pdf_path ic s)"

text \<open>
  \<^verbatim>\<open>
  def ingest_single_pdf(pdf_path):
      state = load_state()
      mtime = pdf_path.stat().st_mtime
      if state.get(pdf_path.name, 0) >= mtime:
          return
      readable_pdf = run_ocr_if_needed(pdf_path)
      text = extract_text_from_pdf(readable_pdf)
      if not text:
          return
      chunks = chunk_text(text)
      new_chunks = 0
      for i, chunk in enumerate(...): ...
      state[pdf_path.name] = mtime
      save_state(state)
  \<close>
  The result is \<open>None\<close> when the call does not return, \<open>Some (Inl err)\<close> when it raises
  and \<open>Some (Inr w')\<close> when it returns in the world \<open>w'\<close>.
\<close>

definition ingest_single_pdf ::
  "('t::{zero,linorder}, 'e) env \<Rightarrow> path \<Rightarrow> ('t, 'e) world \<Rightarrow> (error + ('t, 'e) world) option" where
  "ingest_single_pdf e pdf_path w =
     (let state = load_state w in
      case st_mtime e pdf_path of
        None \<Rightarrow> Some (Inl FileNotFoundError)
      | Some mtime \<Rightarrow>
          if state_get state (name pdf_path) \<ge> mtime then Some (Inr w)
          else
            (case run_ocr_if_needed e pdf_path w of (readable_pdf, w1) \<Rightarrow>
             case extract_text_from_pdf e readable_pdf w1 of (text, w2) \<Rightarrow>
               if text = [] then Some (Inr w2)
               else
                 (case chunk_text text CHUNK_SIZE CHUNK_OVERLAP of
                    None \<Rightarrow> None
                  | Some chunks \<Rightarrow>
                      (case ingest_loop e pdf_path (enumerate_list chunks) (0, w2) of
                         (new_chunks, w3) \<Rightarrow>
                           Some (Inr (save_state (state(name pdf_path \<mapsto> mtime)) w3))))))"

section \<open>Retrieval pipeline: rag_pipeline.py\<close>

definition TOP_K :: int where
  "TOP_K = 4"

definition MAX_CONTEXT_CHARS :: int where
  "MAX_CONTEXT_CHARS = 4000"

text \<open>
  The response of \<^verbatim>\<open>collection.query\<close>: one list of documents and one list of metadata
  per query embedding. The two collaborators of retrieval: the embedding service
  (\<open>None\<close> when the request raises) and the nearest-neighbour query of the index
  (\<open>None\<close> when it raises).
\<close>

record 't query_result =
  documents :: "string list list"
  metadatas :: "'t chunk_metadata list list"

record ('t, 'e) rag_env =
  query_embeddings :: "string \<Rightarrow> 'e list option"
  collection_query ::
    "(string \<rightharpoonup> ('t, 'e) entry) \<Rightarrow> 'e list list \<Rightarrow> int \<Rightarrow> 't query_result option"

text \<open>
  \<^verbatim>\<open>
  def retrieve_context(query, top_k=TOP_K):
      try:
          q_embed = client.embeddings(model=EMBED_MODEL, prompt=query)["embedding"]
          results = collection.query(query_embeddings=[q_embed], n_results=top_k)
          docs = results["documents"][0]
          metas = results["metadatas"][0]
          return docs, metas
      except Exception as e:
          return [], []
  \<close>
  Indexing an empty list with \<^verbatim>\<open>[0]\<close> raises, which the handler catches as well.
\<close>

definition retrieve_context ::
  "('t, 'e) rag_env \<Rightarrow> (string \<rightharpoonup> ('t, 'e) entry) \<Rightarrow> string \<Rightarrow> int
     \<Rightarrow> string list \<times> 't chunk_metadata list" where
  "retrieve_context e coll query top_k =
     (case query_embeddings e query of
        None \<Rightarrow> ([], [])
      | Some q_embed \<Rightarrow>
          (case collection_query e coll [q_embed] top_k of
             None \<Rightarrow> ([], [])
           | Some results \<Rightarrow>
               (case documents results of
                  [] \<Rightarrow> ([], [])
                | docs # ds \<Rightarrow>
                    (case metadatas results of
                       [] \<Rightarrow> ([], [])
                     | metas # ms \<Rightarrow> (docs, metas)))))"

text \<open>
  What the pipeline relies on from the index: every match of a query is a record of the
  collection that was queried.
\<close>

definition matches_stored :: "('t, 'e) rag_env \<Rightarrow> bool" where
  "matches_stored e =
     (\<forall>coll qs k r. collection_query e coll qs k = Some r \<longrightarrow>
        (\<forall>ds \<in> set (documents r). \<forall>d \<in> set ds. \<exists>x \<in> ran coll. entry_document x = d) \<and>
        (\<forall>ms \<in> set (metadatas r). \<forall>m \<in> set ms. \<exists>x \<in> ran coll. entry_metadata x = m))"

text \<open>
  \<^verbatim>\<open>
  def truncate_context(chunks, max_chars=MAX_CONTEXT_CHARS):
      context = ""
      for chunk in chunks:
          if len(context) + len(chunk) > max_chars:
              break
          context += chunk + "\n\n"
      return context.strip()
  \<close>
\<close>

definition blank_line :: string where
  "blank_line = [CHR 0x0A, CHR 0x0A]"

fun truncate_loop :: "string list \<Rightarrow> int \<Rightarrow> string \<Rightarrow> string" where
  "truncate_loop [] max_chars context = context"
| "truncate_loop (chunk # chunks) max_chars context =
     (if int (length context) + int (length chunk) > max_chars then context
      else truncate_loop chunks max_chars (context @ chunk @ blank_line))"

definition truncate_context :: "string list \<Rightarrow> int \<Rightarrow> string" where
  "truncate_context chunks max_chars = strip (truncate_loop chunks max_chars [])"

text \<open>\<^verbatim>\<open>sep.join(xs)\<close>: the texts in order with the separator between neighbours.\<close>

fun join :: "string \<Rightarrow> string list \<Rightarrow> string" where
  "join sep [] = []"
| "join sep [x] = x"
| "join sep (x # y # ys) = x @ sep @ join sep (y # ys)"

text \<open>A text that \<^verbatim>\<open>strip\<close> leaves as it is and that is not empty, as every chunk of the chunker.\<close>

definition trimmed :: "string \<Rightarrow> bool" where
  "trimmed s = (s \<noteq> [] \<and> \<not> isspace (hd s) \<and> \<not> isspace (last s))"

section \<open>Notions used to state the properties\<close>

declare str_nat.simps [simp del]

text \<open>Reading a decimal numeral back, to tell the chunk identifiers of a document apart.\<close>

definition nat_of_digits :: "string \<Rightarrow> nat" where
  "nat_of_digits s = foldl (\<lambda>a c. 10 * a + (of_char c - 48)) 0 s"

text \<open>
  The two reading steps of \<^verbatim>\<open>ingest_single_pdf\<close> taken together, the extractor with its OCR
  fallback:
  \<^verbatim>\<open>
      readable_pdf = run_ocr_if_needed(pdf_path)
      text = extract_text_from_pdf(readable_pdf)
  \<close>
\<close>

definition read_document ::
  "('t, 'e) env \<Rightarrow> path \<Rightarrow> ('t, 'e) world \<Rightarrow> string \<times> ('t, 'e) world" where
  "read_document e pdf_path w =
     (case run_ocr_if_needed e pdf_path w of (readable_pdf, w1) \<Rightarrow>
        extract_text_from_pdf e readable_pdf w1)"

text \<open>
  What a run of the loop over \<open>chunks\<close>, started in the world \<open>w0\<close> and ended in \<open>w\<close>, has
  done with the chunk of index \<open>i\<close>: a record that was in the index under the chunk's id
  is still there as it was; otherwise the id is still absent when the embedding request for
  this chunk (the \<open>i\<close>-th of the run) failed or came back empty, and else the id now holds the
  chunk's text with the embedding that was returned and the metadata of the chunk.
\<close>

definition chunk_outcome ::
  "('t, 'e) env \<Rightarrow> path \<Rightarrow> ('t, 'e) world \<Rightarrow> string list \<Rightarrow> nat \<Rightarrow> ('t, 'e) world \<Rightarrow> bool" where
  "chunk_outcome e pdf_path w0 chunks i w =
     (case collection w0 (doc_id pdf_path i) of
        Some x \<Rightarrow> collection w (doc_id pdf_path i) = Some x
      | None \<Rightarrow>
          (case client_embeddings e (length (embed_log w0) + i) (chunks ! i) of
             None \<Rightarrow> collection w (doc_id pdf_path i) = None
           | Some v \<Rightarrow>
               if v = [] then collection w (doc_id pdf_path i) = None
               else (\<exists>t. collection w (doc_id pdf_path i) =
                      Some \<lparr>entry_embedding = v, entry_document = chunks ! i,
                            entry_metadata = \<lparr>filename = name pdf_path, chunk_index = i,
                                               timestamp = t\<rparr>\<rparr>)))"

text \<open>
  The value of \<^verbatim>\<open>context\<close> in \<^verbatim>\<open>truncate_context\<close> after the given chunks have been appended,
  each followed by a blank line.
\<close>

definition accumulated :: "string list \<Rightarrow> string" where
  "accumulated chunks = concat (map (\<lambda>chunk. chunk @ blank_line) chunks)"

section \<open>Example documents, collaborators and worlds\<close>

text \<open>
  A one-page document \<^verbatim>\<open>docs/a.pdf\<close> with the text \<^verbatim>\<open>hello\<close>, modified at time 5, with an
  embedding service that answers every request; the same document as a scan without text
  for which OCR produces a file that cannot be read; and a document of 701 characters, which
  makes two chunks, with an embedding service whose first request fails.
\<close>

definition doc_a :: path where
  "doc_a = \<lparr>parent = ''docs'', name = ''a.pdf'', stem = ''a''\<rparr>"

definition env_a :: "(int, int) env" where
  "env_a =
     \<lparr>st_mtime = (\<lambda>q. if q = doc_a then Some 5 else None),
      pdf_reader = (\<lambda>q. if q = doc_a then Some [Some ''hello'', None] else None),
      ocrmypdf_ocr = (\<lambda>q r. False),
      gettempdir = ''/tmp'',
      client_embeddings = (\<lambda>n c. Some [1, 2]),
      time_time = (\<lambda>n. 9)\<rparr>"

definition env_scan :: "(int, int) env" where
  "env_scan =
     env_a\<lparr>pdf_reader := (\<lambda>q. if q = doc_a then Some [Some '' '', None] else None),
           ocrmypdf_ocr := (\<lambda>q r. True)\<rparr>"

definition text_long :: string where
  "text_long = replicate 701 (CHR ''a'')"

definition doc_long :: path where
  "doc_long = \<lparr>parent = ''docs'', name = ''long.pdf'', stem = ''long''\<rparr>"

definition env_flaky :: "(int, int) env" where
  "env_flaky =
     \<lparr>st_mtime = (\<lambda>q. if q = doc_long then Some 5 else None),
      pdf_reader = (\<lambda>q. if q = doc_long then Some [Some text_long] else None),
      ocrmypdf_ocr = (\<lambda>q r. False),
      gettempdir = ''/tmp'',
      client_embeddings = (\<lambda>n c. if n = 0 then None else Some [1, 2]),
      time_time = (\<lambda>n. 9)\<rparr>"

definition entry_a :: "(int, int) entry" where
  "entry_a =
     \<lparr>entry_embedding = [1, 2], entry_document = ''hello'',
      entry_metadata = \<lparr>filename = ''a.pdf'', chunk_index = 0, timestamp = 9\<rparr>\<rparr>"

definition world_empty :: "(int, int) world" where
  "world_empty =
     \<lparr>state_file = None, collection = Map.empty, extract_log = [], ocr_log = [],
      embed_log = [], add_log = []\<rparr>"

definition world_indexed :: "(int, int) world" where
  "world_indexed =
     world_empty\<lparr>collection :=
       [''a::chunk_0'' \<mapsto>
          \<lparr>entry_embedding = [1, 2], entry_document = ''hello'',
           entry_metadata = \<lparr>filename = ''a.pdf'', chunk_index = 0, timestamp = 3\<rparr>\<rparr>]\<rparr>"

definition world_done :: "(int, int) world" where
  "world_done = world_empty\<lparr>state_file := Some [''a.pdf'' \<mapsto> 5]\<rparr>"

definition world_other :: "(int, int) world" where
  "world_other = world_empty\<lparr>state_file := Some [''b.pdf'' \<mapsto> 7]\<rparr>"

text \<open>
  An index for retrieval that answers a query with the record stored under the id
  \<^verbatim>\<open>a::chunk_0\<close>, when there is one.
\<close>

definition env_r :: "(int, int) rag_env" where
  "env_r =
     \<lparr>query_embeddings = (\<lambda>q. Some [1, 2]),
      collection_query = (\<lambda>coll qs k.
        case coll ''a::chunk_0'' of
          None \<Rightarrow> Some \<lparr>documents = [[]], metadatas = [[]]\<rparr>
        | Some x \<Rightarrow> Some \<lparr>documents = [[entry_document x]], metadatas = [[entry_metadata x]]\<rparr>)\<rparr>"

section \<open>Properties of the chunker\<close>

lemma length_strip_le: "length (strip s) \<le> length s"
proof -
  have "length (strip s) \<le> length (dropWhile isspace s)"
    unfolding strip_def using length_dropWhile_le[of isspace "rev (dropWhile isspace s)"] by simp
  also have "\<dots> \<le> length s" by (rule length_dropWhile_le)
  finally show ?thesis .
qed

lemma slice_index_nonneg: "0 \<le> i \<Longrightarrow> slice_index i n = min (nat i) n"
  by (auto simp: slice_index_def)




text \<open>
  With \<open>overlap < chunk_size\<close> the cursor grows in every iteration, so the distance to the
  end of the text is a measure of the loop.
\<close>

lemma cursors_exist:
  assumes "overlap < chunk_size"
  shows "\<exists>ss. cursors n chunk_size overlap start ss"
proof (induction "nat (int n - start)" arbitrary: start rule: less_induct)
  case less
  show ?case
  proof (cases "start < int n")
    case True
    then have "nat (int n - (start + (chunk_size - overlap))) < nat (int n - start)"
      using assms by linarith
    from less[OF this] obtain ss
      where "cursors n chunk_size overlap (start + (chunk_size - overlap)) ss"
      by blast
    with True have "cursors n chunk_size overlap start (start # ss)" by simp
    then show ?thesis by blast
  next
    case False
    then have "cursors n chunk_size overlap start []" by simp
    then show ?thesis by blast
  qed
qed

lemma chunk_loop_cursors:
  "cursors (length text) chunk_size overlap start ss \<Longrightarrow>
   chunk_loop text chunk_size overlap start acc = Some (acc @ emit text chunk_size ss)"
proof (induction ss arbitrary: start acc)
  case Nil
  then show ?case by (subst chunk_loop.simps) (simp add: emit_def)
next
  case (Cons s ss)
  then have st: "start < int (length text)" "s = start"
    and rest: "cursors (length text) chunk_size overlap (start + (chunk_size - overlap)) ss"
    by simp_all
  show ?case
    by (subst chunk_loop.simps) (simp add: st Let_def Cons.IH[OF rest] emit_def)
qed

lemma window_loop_cursors:
  "cursors (length text) chunk_size overlap start ss \<Longrightarrow>
   window_loop text chunk_size overlap start acc = Some (acc @ map (window_of text chunk_size) ss)"
proof (induction ss arbitrary: start acc)
  case Nil
  then show ?case by (subst window_loop.simps) simp
next
  case (Cons s ss)
  then have st: "start < int (length text)" "s = start"
    and rest: "cursors (length text) chunk_size overlap (start + (chunk_size - overlap)) ss"
    by simp_all
  show ?case
    by (subst window_loop.simps) (simp add: st Let_def Cons.IH[OF rest] window_of_def)
qed

lemma cursors_nth:
  "cursors n chunk_size overlap start ss \<Longrightarrow> k < length ss \<Longrightarrow>
   ss ! k = start + int k * (chunk_size - overlap) \<and> ss ! k < int n"
proof (induction ss arbitrary: start k)
  case Nil
  then show ?case by simp
next
  case (Cons s ss)
  show ?case
  proof (cases k)
    case 0
    with Cons.prems show ?thesis by simp
  next
    case (Suc j)
    with Cons.prems have "j < length ss"
      and "cursors n chunk_size overlap (start + (chunk_size - overlap)) ss" by simp_all
    from Cons.IH[OF this(2) this(1)] Suc show ?thesis by (simp add: algebra_simps)
  qed
qed

text \<open>
  The chunks are the trimmed, non-empty texts of the recorded windows, in order: the two
  loops run over the same cursor positions.
\<close>

lemma chunk_text_of_cursors:
  assumes "cursors (length text) chunk_size overlap 0 ss"
  shows "chunk_text text chunk_size overlap = Some (emit text chunk_size ss)"
    and "chunk_windows text chunk_size overlap = Some (map (window_of text chunk_size) ss)"
  using chunk_loop_cursors[OF assms, of "[]"] window_loop_cursors[OF assms, of "[]"]
  by (simp_all add: chunk_text_def chunk_windows_def)

lemma shared_card: "shared a b = card ({fst a..<snd a} \<inter> {fst b..<snd b})"
  by (simp add: shared_def)




text \<open>
  C5, as the code has it. For every text and \<open>0 \<le> overlap < chunk_size\<close>, two consecutive
  windows have exactly \<open>min overlap (len(text) - start of the later window)\<close> positions of
  the text in common before trimming. That is exactly \<open>overlap\<close> whenever the earlier
  window has its full size (\<open>start + chunk_size \<le> len(text)\<close>).
\<close>

theorem chunk_windows_overlap:
  assumes "0 \<le> overlap" "overlap < chunk_size"
    and "chunk_windows text chunk_size overlap = Some ws" and "Suc k < length ws"
  shows "shared (ws ! k) (ws ! Suc k) = min (nat overlap) (length text - fst (ws ! Suc k)) \<and>
         (fst (ws ! k) + nat chunk_size \<le> length text \<longrightarrow>
            shared (ws ! k) (ws ! Suc k) = nat overlap)"
proof -
  from cursors_exist[OF assms(2)] obtain ss
    where ss: "cursors (length text) chunk_size overlap 0 ss" by blast
  have ws: "ws = map (window_of text chunk_size) ss"
    using chunk_text_of_cursors(2)[OF ss] assms(3) by simp
  then have k: "k < length ss" "Suc k < length ss" using assms(4) by simp_all
  define a where "a = ss ! k"
  have "a = int k * (chunk_size - overlap)"
    using cursors_nth[OF ss k(1)] by (simp add: a_def)
  then have a0: "0 \<le> a" using assms(1,2) by simp
  have a1: "a < int (length text)"
    using cursors_nth[OF ss k(1)] by (simp add: a_def)
  have b: "ss ! Suc k = a + (chunk_size - overlap)" "a + (chunk_size - overlap) < int (length text)"
    using cursors_nth[OF ss k(2)] cursors_nth[OF ss k(1)] by (simp_all add: a_def algebra_simps)
  have wa: "ws ! k = (nat a, nat (min (a + chunk_size) (int (length text))))"
    using k a0 a1 assms(1,2) unfolding ws
    by (simp add: window_of_def slice_span_def slice_index_nonneg a_def[symmetric])
  have wb: "ws ! Suc k = (nat (a + (chunk_size - overlap)),
                          nat (min (a + (chunk_size - overlap) + chunk_size) (int (length text))))"
    using k a0 b assms(1,2) unfolding ws
    by (simp add: window_of_def slice_span_def slice_index_nonneg)
  define L where "L = int (length text)"
  define e1 where "e1 = min (a + chunk_size) L"
  define e2 where "e2 = min (a + (chunk_size - overlap) + chunk_size) L"
  define s2 where "s2 = a + (chunk_size - overlap)"
  have s2: "0 \<le> s2" "a \<le> s2" "s2 < L" using a0 b(2) assms(2) by (simp_all add: s2_def L_def)
  have e: "e1 \<le> e2" "0 \<le> e1" using a0 a1 assms(1,2) by (simp_all add: e1_def e2_def L_def)
  have diff: "e1 - s2 = min overlap (L - s2)" by (simp add: e1_def s2_def)
  have "shared (ws ! k) (ws ! Suc k) = min (nat e1) (nat e2) - max (nat a) (nat s2)"
    unfolding wa wb shared_def fst_conv snd_conv e1_def e2_def s2_def L_def ..
  also have "min (nat e1) (nat e2) = nat e1" using e by simp
  also have "max (nat a) (nat s2) = nat s2" using s2 by simp
  also have "nat e1 - nat s2 = nat (e1 - s2)" using s2 e by simp
  finally have sh: "shared (ws ! k) (ws ! Suc k) = nat (min overlap (L - s2))"
    unfolding diff .
  have fstb: "fst (ws ! Suc k) = nat s2" unfolding wb s2_def by simp
  have fsta: "fst (ws ! k) = nat a" unfolding wa by simp
  have len: "length text - nat s2 = nat (L - s2)" using s2 by (simp add: L_def)
  have one: "shared (ws ! k) (ws ! Suc k) = min (nat overlap) (length text - fst (ws ! Suc k))"
    unfolding sh fstb len using assms(1) s2 by simp
  have two: "shared (ws ! k) (ws ! Suc k) = nat overlap"
    if "fst (ws ! k) + nat chunk_size \<le> length text"
  proof -
    from that a0 assms(1,2) have "a + chunk_size \<le> L" unfolding fsta L_def by simp
    then have "overlap \<le> L - s2" by (simp add: s2_def)
    then show ?thesis unfolding sh by simp
  qed
  from one two show ?thesis by blast
qed

text \<open>
  The theorem of C5 at a text of 11 characters with windows of 8 that overlap by 3: the
  first window is full and shares 3 positions with the second.
\<close>

theorem chunk_windows_overlap_witness:
  "(0::int) \<le> 3 \<and> (3::int) < 8 \<and>
   chunk_windows ''hello world'' 8 3 = Some [(0, 8), (5, 11), (10, 11)] \<and>
   Suc 0 < length [(0::nat, 8::nat), (5, 11), (10, 11)] \<and>
   fst ([(0::nat, 8::nat), (5, 11), (10, 11)] ! 0) + nat 8 \<le> length ''hello world'' \<and>
   shared ([(0, 8), (5, 11), (10, 11)] ! 0) ([(0, 8), (5, 11), (10, 11)] ! Suc 0) = nat 3"
proof -
  have run: "chunk_windows ''hello world'' 8 3 = Some [(0, 8), (5, 11), (10, 11)]"
    by (simp add: chunk_windows_def window_loop.simps slice_span_def slice_index_def)
  have "shared ([(0, 8), (5, 11), (10, 11)] ! 0) ([(0, 8), (5, 11), (10, 11)] ! Suc 0) = nat 3"
    using chunk_windows_overlap[of 3 8 "''hello world''" "[(0, 8), (5, 11), (10, 11)]" 0] run
    by simp
  with run show ?thesis by simp
qed

text \<open>
  C5 as it is stated fails when the end of the text cuts the earlier window short: for
  \<^verbatim>\<open>"abc"\<close> with size 4 and overlap 2 the windows are \<open>[0, 3)\<close> and \<open>[2, 3)\<close>, which share
  one position, not two. It also fails for a negative overlap, where the windows are
  apart: for \<^verbatim>\<open>"abcde"\<close> with size 2 and overlap \<open>-1\<close> they are \<open>[0, 2)\<close> and \<open>[3, 5)\<close>.
\<close>

theorem chunk_windows_overlap_counterexample:
  "(2::int) < 4 \<and> chunk_windows ''abc'' 4 2 = Some [(0, 3), (2, 3)] \<and>
   int (shared (0, 3) (2, 3)) \<noteq> 2 \<and>
   (-1::int) < 2 \<and> chunk_windows ''abcde'' 2 (-1) = Some [(0, 2), (3, 5)] \<and>
   int (shared (0, 2) (3, 5)) \<noteq> -1"
  by (simp add: chunk_windows_def window_loop.simps slice_span_def slice_index_def shared_def)

text \<open>
  What \<^verbatim>\<open>strip\<close> returns is empty or starts and ends with a character that is not
  whitespace, and \<^verbatim>\<open>strip\<close> leaves such a text as it is. So every chunk of the chunker is
  trimmed and not empty.
\<close>

lemma last_dropWhile_nonempty: "dropWhile P xs \<noteq> [] \<Longrightarrow> last (dropWhile P xs) = last xs"
  by (induction xs) (auto split: if_splits)

lemma trimmed_strip: "strip s \<noteq> [] \<Longrightarrow> trimmed (strip s)"
proof -
  assume ne: "strip s \<noteq> []"
  define z where "z = dropWhile isspace s"
  define y where "y = dropWhile isspace (rev z)"
  have s: "strip s = rev y" by (simp add: strip_def y_def z_def)
  with ne have y: "y \<noteq> []" by simp
  then have z: "z \<noteq> []" by (auto simp: y_def)
  from y have "\<not> isspace (hd y)" unfolding y_def by (rule hd_dropWhile)
  then have a: "\<not> isspace (last (rev y))" using y by (simp add: last_rev)
  from y have "last y = last (rev z)" unfolding y_def by (rule last_dropWhile_nonempty)
  also have "\<dots> = hd z" using z by (simp add: last_rev)
  finally have "hd (rev y) = hd z" using y by (simp add: hd_rev)
  moreover from z have "\<not> isspace (hd z)" unfolding z_def by (rule hd_dropWhile)
  ultimately show ?thesis using a y by (simp add: trimmed_def s)
qed

lemma strip_trimmed: "trimmed s \<Longrightarrow> strip s = s"
proof -
  assume t: "trimmed s"
  then have a: "dropWhile isspace s = s" by (cases s) (simp_all add: trimmed_def)
  from t have "rev s \<noteq> []" "\<not> isspace (hd (rev s))" by (simp_all add: trimmed_def hd_rev)
  then have "dropWhile isspace (rev s) = rev s" by (cases "rev s") simp_all
  with a show ?thesis by (simp add: strip_def)
qed

lemma chunk_text_trimmed:
  assumes "overlap < chunk_size" and "chunk_text text chunk_size overlap = Some chunks"
  shows "\<forall>c \<in> set chunks. trimmed c"
proof -
  from cursors_exist[OF assms(1)] obtain ss
    where "cursors (length text) chunk_size overlap 0 ss" by blast
  from chunk_text_of_cursors(1)[OF this] assms(2) have "chunks = emit text chunk_size ss" by simp
  then show ?thesis by (auto simp: emit_def intro: trimmed_strip)
qed

lemma chunk_text_default_returns: "\<exists>chunks. chunk_text text CHUNK_SIZE CHUNK_OVERLAP = Some chunks"
proof -
  have "CHUNK_OVERLAP < CHUNK_SIZE" by (simp add: CHUNK_SIZE_def CHUNK_OVERLAP_def)
  from cursors_exist[OF this] obtain ss
    where "cursors (length text) CHUNK_SIZE CHUNK_OVERLAP 0 ss" by blast
  from chunk_text_of_cursors(1)[OF this] show ?thesis by blast
qed

section \<open>Properties of the context assembler\<close>

lemma isspace_blank_line: "\<forall>c \<in> set blank_line. isspace c"
  by (simp add: blank_line_def isspace_def)

lemma strip_append_space:
  assumes "\<forall>c \<in> set ws. isspace c"
  shows "strip (x @ ws) = strip x"
proof (cases "\<forall>c \<in> set x. isspace c")
  case True
  with assms have e: "dropWhile isspace (x @ ws) = []" "dropWhile isspace x = []"
    by (simp_all add: dropWhile_eq_Nil_conv)
  show ?thesis unfolding strip_def e ..
next
  case False
  then obtain c where "c \<in> set x" "\<not> isspace c" by blast
  then have "dropWhile isspace (x @ ws) = dropWhile isspace x @ ws"
    by (rule dropWhile_append1)
  moreover have "dropWhile isspace (rev ws @ rev (dropWhile isspace x)) = dropWhile isspace (rev (dropWhile isspace x))"
    using assms by (intro dropWhile_append2) simp
  ultimately show ?thesis by (simp add: strip_def)
qed

lemma strip_Nil: "strip [] = []"
  by (simp add: strip_def)

lemma trimmed_join:
  "chunks \<noteq> [] \<Longrightarrow> \<forall>c \<in> set chunks. trimmed c \<Longrightarrow> trimmed (join sep chunks)"
proof (induction sep chunks rule: join.induct)
  case (1 sep)
  then show ?case by simp
next
  case (2 sep x)
  then show ?case by simp
next
  case (3 sep x y ys)
  then have j: "trimmed (join sep (y # ys))" and x: "trimmed x" by simp_all
  then show ?case by (simp add: trimmed_def)
qed

lemma accumulated_join:
  "chunks \<noteq> [] \<Longrightarrow> accumulated chunks = join blank_line chunks @ blank_line"
  by (induction blank_line chunks rule: join.induct) (simp_all add: accumulated_def)

lemma strip_accumulated: "strip (accumulated chunks) = strip (join blank_line chunks)"
proof (cases "chunks = []")
  case True
  then show ?thesis by (simp add: accumulated_def)
next
  case False
  then show ?thesis
    by (simp add: accumulated_join strip_append_space[OF isspace_blank_line])
qed

lemma accumulated_snoc: "accumulated (cs @ [c]) = accumulated cs @ c @ blank_line"
  by (simp add: accumulated_def)

lemma truncate_loop_prefix:
  "\<exists>n \<le> length chunks.
     truncate_loop chunks max_chars ctx = ctx @ accumulated (take n chunks) \<and>
     (\<forall>k < n. int (length (ctx @ accumulated (take k chunks))) + int (length (chunks ! k)) \<le> max_chars) \<and>
     (n < length chunks \<longrightarrow>
        int (length (ctx @ accumulated (take n chunks))) + int (length (chunks ! n)) > max_chars)"
proof (induction chunks arbitrary: ctx)
  case Nil
  then show ?case by (simp add: accumulated_def)
next
  case (Cons chunk chunks)
  show ?case
  proof (cases "int (length ctx) + int (length chunk) > max_chars")
    case True
    then show ?thesis by (intro exI[of _ 0]) (simp add: accumulated_def)
  next
    case False
    from Cons.IH[of "ctx @ chunk @ blank_line"] obtain n where n: "n \<le> length chunks"
      and eq: "truncate_loop chunks max_chars (ctx @ chunk @ blank_line) =
               (ctx @ chunk @ blank_line) @ accumulated (take n chunks)"
      and fits: "\<forall>k < n. int (length ((ctx @ chunk @ blank_line) @ accumulated (take k chunks))) + int (length (chunks ! k)) \<le> max_chars"
      and stop: "n < length chunks \<longrightarrow>
        int (length ((ctx @ chunk @ blank_line) @ accumulated (take n chunks))) + int (length (chunks ! n)) > max_chars"
      by blast
    have acc: "\<And>k. ctx @ accumulated (take (Suc k) (chunk # chunks)) = (ctx @ chunk @ blank_line) @ accumulated (take k chunks)"
      by (simp add: accumulated_def)
    have "\<forall>k < Suc n. int (length (ctx @ accumulated (take k (chunk # chunks)))) + int (length ((chunk # chunks) ! k)) \<le> max_chars"
    proof (intro allI impI)
      fix k assume "k < Suc n"
      show "int (length (ctx @ accumulated (take k (chunk # chunks)))) + int (length ((chunk # chunks) ! k)) \<le> max_chars"
      proof (cases k)
        case 0
        with False show ?thesis by (simp add: accumulated_def)
      next
        case (Suc j)
        with \<open>k < Suc n\<close> have "j < n" by simp
        with fits Suc show ?thesis unfolding Suc acc by simp
      qed
    qed
    moreover have "truncate_loop (chunk # chunks) max_chars ctx = ctx @ accumulated (take (Suc n) (chunk # chunks))"
      using False eq unfolding acc by simp
    moreover have "Suc n < length (chunk # chunks) \<longrightarrow>
        int (length (ctx @ accumulated (take (Suc n) (chunk # chunks)))) + int (length ((chunk # chunks) ! Suc n)) > max_chars"
      using stop unfolding acc by simp
    moreover have "Suc n \<le> length (chunk # chunks)" using n by simp
    ultimately show ?thesis by blast
  qed
qed

text \<open>
  C6, as the code has it. For every list of ranked texts and every budget \<open>max_chars\<close> that
  is not negative, \<^verbatim>\<open>truncate_context\<close> returns a text of at most \<open>max_chars\<close> characters.
  The text is the result of \<^verbatim>\<open>strip\<close> on the blank-line-separated concatenation of a prefix
  of the input, in the input's order. The prefix ends before the first text that would
  take the accumulated context beyond the budget: every text of the prefix fitted when it
  was appended (the context accumulated before it, separators included, and the text are
  together within the budget), and the text after the prefix, when there is one, does
  not fit. When every text of the input is trimmed and not empty, as the chunks of the
  chunker are, the result is that concatenation itself: whole texts only.
\<close>

theorem truncate_context_whole_chunks:
  assumes "0 \<le> max_chars"
  shows "int (length (truncate_context chunks max_chars)) \<le> max_chars \<and>
         (\<exists>n \<le> length chunks.
            truncate_context chunks max_chars = strip (join blank_line (take n chunks)) \<and>
            (\<forall>k < n.
               int (length (accumulated (take k chunks))) + int (length (chunks ! k)) \<le> max_chars) \<and>
            (n < length chunks \<longrightarrow>
               int (length (accumulated (take n chunks))) + int (length (chunks ! n)) > max_chars) \<and>
            ((\<forall>c \<in> set chunks. trimmed c) \<longrightarrow>
               truncate_context chunks max_chars = join blank_line (take n chunks)))"
proof -
  from truncate_loop_prefix[of chunks max_chars "[]"] obtain n where n: "n \<le> length chunks"
    and eq: "truncate_loop chunks max_chars [] = accumulated (take n chunks)"
    and fits: "\<forall>k < n. int (length (accumulated (take k chunks))) + int (length (chunks ! k)) \<le> max_chars"
    and stop: "n < length chunks \<longrightarrow>
        int (length (accumulated (take n chunks))) + int (length (chunks ! n)) > max_chars"
    by auto
  have res: "truncate_context chunks max_chars = strip (join blank_line (take n chunks))"
    by (simp add: truncate_context_def eq strip_accumulated)
  have bound: "int (length (truncate_context chunks max_chars)) \<le> max_chars"
  proof (cases n)
    case 0
    with assms show ?thesis by (simp add: truncate_context_def eq accumulated_def strip_Nil)
  next
    case (Suc j)
    with n have j: "j < length chunks" by simp
    then have "take n chunks = take j chunks @ [chunks ! j]"
      unfolding Suc by (simp add: take_Suc_conv_app_nth)
    then have "accumulated (take n chunks) = (accumulated (take j chunks) @ chunks ! j) @ blank_line"
      by (simp add: accumulated_snoc)
    then have "truncate_context chunks max_chars = strip (accumulated (take j chunks) @ chunks ! j)"
      by (simp only: truncate_context_def eq strip_append_space[OF isspace_blank_line])
    moreover have "length (strip (accumulated (take j chunks) @ chunks ! j)) \<le> length (accumulated (take j chunks) @ chunks ! j)"
      by (rule length_strip_le)
    moreover from fits Suc have "int (length (accumulated (take j chunks))) + int (length (chunks ! j)) \<le> max_chars"
      by simp
    ultimately show ?thesis by simp
  qed
  have whole: "truncate_context chunks max_chars = join blank_line (take n chunks)"
    if "\<forall>c \<in> set chunks. trimmed c"
  proof (cases "take n chunks = []")
    case True
    show ?thesis unfolding res True by (simp add: strip_Nil)
  next
    case False
    from that have "\<forall>c \<in> set (take n chunks). trimmed c" by (auto dest: in_set_takeD)
    from trimmed_join[OF False this] show ?thesis by (simp add: res strip_trimmed)
  qed
  from n res fits stop bound whole show ?thesis by blast
qed

text \<open>
  The theorem of C6 on three texts with a budget of 7: the first two fit, the third is
  dropped whole.
\<close>

theorem truncate_context_whole_chunks_witness:
  "(0::int) \<le> 7 \<and>
   truncate_context [''ab'', ''cd'', ''efg''] 7 = ''ab'' @ blank_line @ ''cd'' \<and>
   int (length (truncate_context [''ab'', ''cd'', ''efg''] 7)) \<le> 7 \<and>
   truncate_context [''ab'', ''cd'', ''efg''] 7 = join blank_line (take 2 [''ab'', ''cd'', ''efg''])"
  using truncate_context_whole_chunks[of 7 "[''ab'', ''cd'', ''efg'']"]
  by (simp add: truncate_context_def blank_line_def strip_def isspace_def)

text \<open>
  C6 as it is stated fails in two ways. The final \<^verbatim>\<open>strip\<close> also removes whitespace that
  belongs to a text: from the single text \<^verbatim>\<open>" a"\<close> it returns \<^verbatim>\<open>"a"\<close>, which is the
  concatenation of neither prefix of the input. And with a negative budget the empty result
  is longer than the budget.
\<close>

theorem truncate_context_strips_counterexample:
  "truncate_context ['' a''] 10 = ''a'' \<and>
   ''a'' \<noteq> join blank_line [] \<and> ''a'' \<noteq> join blank_line ['' a''] \<and>
   truncate_context [] (-1) = [] \<and> \<not> int (length ([] :: string)) \<le> -1"
  by (simp add: truncate_context_def blank_line_def strip_def isspace_def)

section \<open>Properties of ingestion\<close>

subsection \<open>Chunk identifiers\<close>

lemma digit_code: "k < 10 \<Longrightarrow> (of_char (char_of (48 + k)) :: nat) - 48 = k"
proof -
  assume "k < 10"
  then have "(48 + k) mod 256 = 48 + k" by simp
  then show ?thesis by (simp only: of_char_of diff_add_inverse)
qed

lemma nat_of_digits_snoc: "nat_of_digits (s @ [c]) = 10 * nat_of_digits s + (of_char c - 48)"
  by (simp add: nat_of_digits_def)

lemma nat_of_digits_single: "nat_of_digits [c] = of_char c - 48"
  by (simp add: nat_of_digits_def)

lemma nat_of_digits_str_nat: "nat_of_digits (str_nat n) = n"
proof (induction n rule: str_nat.induct)
  case (1 n)
  show ?case
  proof (cases "n < 10")
    case True
    then have "str_nat n = [char_of (48 + n)]" by (subst str_nat.simps) simp
    then show ?thesis using digit_code[OF True] by (simp only: nat_of_digits_single)
  next
    case False
    with 1 have ih: "nat_of_digits (str_nat (n div 10)) = n div 10" by simp
    have d: "n mod 10 < 10" by simp
    from False have "str_nat n = str_nat (n div 10) @ [char_of (48 + n mod 10)]"
      by (subst str_nat.simps) simp
    then have "nat_of_digits (str_nat n) = 10 * (n div 10) + n mod 10"
      by (simp only: nat_of_digits_snoc ih digit_code[OF d])
    then show ?thesis by simp
  qed
qed

lemma str_nat_inject: "str_nat m = str_nat n \<Longrightarrow> m = n"
proof -
  assume "str_nat m = str_nat n"
  then have "nat_of_digits (str_nat m) = nat_of_digits (str_nat n)" by (rule arg_cong)
  then show "m = n" by (simp only: nat_of_digits_str_nat)
qed

lemma doc_id_inject: "doc_id p i = doc_id p j \<Longrightarrow> i = j"
proof -
  assume "doc_id p i = doc_id p j"
  then have "str_nat i = str_nat j" by (simp only: doc_id_def same_append_eq)
  then show "i = j" by (rule str_nat_inject)
qed

subsection \<open>Reading the document\<close>

lemma extract_text_from_pdf_snd:
  "snd (extract_text_from_pdf e q w) = w\<lparr>extract_log := extract_log w @ [q]\<rparr>"
  by (simp add: extract_text_from_pdf_def)

lemma extract_text_from_pdf_fst:
  "fst (extract_text_from_pdf e q w) = fst (extract_text_from_pdf e q w')"
  by (simp add: extract_text_from_pdf_def)

lemma run_ocr_if_needed_fst:
  "fst (run_ocr_if_needed e q w) = fst (run_ocr_if_needed e q w')"
  by (simp add: run_ocr_if_needed_def extract_text_from_pdf_def Let_def)

lemma run_ocr_if_needed_frame:
  "state_file (snd (run_ocr_if_needed e q w)) = state_file w"
  "collection (snd (run_ocr_if_needed e q w)) = collection w"
  "embed_log (snd (run_ocr_if_needed e q w)) = embed_log w"
  "add_log (snd (run_ocr_if_needed e q w)) = add_log w"
  "extract_log (snd (run_ocr_if_needed e q w)) = extract_log w @ [q]"
  by (simp_all add: run_ocr_if_needed_def extract_text_from_pdf_def Let_def)

lemma read_document_fst: "fst (read_document e q w) = fst (read_document e q w')"
proof -
  obtain r w1 where a: "run_ocr_if_needed e q w = (r, w1)" by (cases "run_ocr_if_needed e q w")
  obtain r' w1' where b: "run_ocr_if_needed e q w' = (r', w1')" by (cases "run_ocr_if_needed e q w'")
  from a b run_ocr_if_needed_fst[of e q w w'] have "r = r'" by simp
  then show ?thesis
    using extract_text_from_pdf_fst[of e r w1 w1'] by (simp add: read_document_def a b)
qed

lemma read_document_frame:
  "state_file (snd (read_document e q w)) = state_file w"
  "collection (snd (read_document e q w)) = collection w"
  "embed_log (snd (read_document e q w)) = embed_log w"
  "add_log (snd (read_document e q w)) = add_log w"
  "extract_log (snd (read_document e q w)) = extract_log w @ [q, fst (run_ocr_if_needed e q w)]"
proof -
  obtain r w1 where a: "run_ocr_if_needed e q w = (r, w1)" by (cases "run_ocr_if_needed e q w")
  have s: "snd (read_document e q w) = w1\<lparr>extract_log := extract_log w1 @ [r]\<rparr>"
    by (simp add: read_document_def a extract_text_from_pdf_def)
  from a have w1: "w1 = snd (run_ocr_if_needed e q w)" "r = fst (run_ocr_if_needed e q w)" by simp_all
  show "state_file (snd (read_document e q w)) = state_file w"
    "collection (snd (read_document e q w)) = collection w"
    "embed_log (snd (read_document e q w)) = embed_log w"
    "add_log (snd (read_document e q w)) = add_log w"
    "extract_log (snd (read_document e q w)) = extract_log w @ [q, fst (run_ocr_if_needed e q w)]"
    unfolding s by (simp_all add: w1 run_ocr_if_needed_frame)
qed

lemma load_state_cong: "state_file w = state_file w' \<Longrightarrow> load_state w = load_state w'"
  by (simp add: load_state_def)

subsection \<open>The loop over the chunks\<close>

lemma ingest_chunk_skip:
  assumes "falsy (client_embeddings e (length (embed_log w)) chunk) \<or> collection w (doc_id p i) \<noteq> None"
  shows "ingest_chunk e p (i, chunk) (n, w) = (n, w\<lparr>embed_log := embed_log w @ [chunk]\<rparr>)"
  using assms
  by (auto simp: ingest_chunk_def embed_text_def falsy_def collection_get_def split: option.splits)

lemma ingest_chunk_add:
  assumes "client_embeddings e (length (embed_log w)) chunk = Some v" "v \<noteq> []"
    and "collection w (doc_id p i) = None"
  shows "ingest_chunk e p (i, chunk) (n, w) =
           (n + 1, collection_add (doc_id p i) v chunk
                     \<lparr>filename = name p, chunk_index = i, timestamp = time_time e (length (add_log w))\<rparr>
                     (w\<lparr>embed_log := embed_log w @ [chunk]\<rparr>))"
  using assms
  by (simp add: ingest_chunk_def embed_text_def collection_get_def)

lemma ingest_loop_append:
  "ingest_loop e p (xs @ ys) s = ingest_loop e p ys (ingest_loop e p xs s)"
  by (induction xs arbitrary: s) simp_all

lemma enumerate_list_snoc: "enumerate_list (cs @ [c]) = enumerate_list cs @ [(length cs, c)]"
  by (simp add: enumerate_list_def)

lemma ingest_loop_invariant:
  "\<exists>n w. ingest_loop e p (enumerate_list cs) (n0, w0) = (n, w) \<and>
     embed_log w = embed_log w0 @ cs \<and>
     state_file w = state_file w0 \<and> extract_log w = extract_log w0 \<and> ocr_log w = ocr_log w0 \<and>
     (\<forall>j. (\<forall>i < length cs. j \<noteq> doc_id p i) \<longrightarrow> collection w j = collection w0 j) \<and>
     (\<forall>i < length cs. chunk_outcome e p w0 cs i w)"
proof (induction cs rule: rev_induct)
  case Nil
  then show ?case by (simp add: enumerate_list_def)
next
  case (snoc c cs)
  then obtain n w where run: "ingest_loop e p (enumerate_list cs) (n0, w0) = (n, w)"
    and emb: "embed_log w = embed_log w0 @ cs"
    and frame: "state_file w = state_file w0" "extract_log w = extract_log w0" "ocr_log w = ocr_log w0"
    and other: "\<forall>j. (\<forall>i < length cs. j \<noteq> doc_id p i) \<longrightarrow> collection w j = collection w0 j"
    and outc: "\<forall>i < length cs. chunk_outcome e p w0 cs i w"
    by blast
  define m where "m = length cs"
  define k where "k = doc_id p m"
  have fresh: "\<forall>i < length cs. k \<noteq> doc_id p i"
    unfolding k_def m_def by (auto dest: doc_id_inject)
  with other have same: "collection w k = collection w0 k" by blast
  have idx: "length (embed_log w) = length (embed_log w0) + m" by (simp add: emb m_def)
  have step: "ingest_loop e p (enumerate_list (cs @ [c])) (n0, w0) = ingest_chunk e p (m, c) (n, w)"
    by (simp add: enumerate_list_snoc ingest_loop_append run m_def)
  have old: "chunk_outcome e p w0 (cs @ [c]) i w'"
    if "i < length cs" "collection w' (doc_id p i) = collection w (doc_id p i)" for i w'
  proof -
    have nth: "(cs @ [c]) ! i = cs ! i" using that(1) by (simp add: nth_append)
    from outc that(1) have "chunk_outcome e p w0 cs i w" by blast
    then show ?thesis unfolding chunk_outcome_def nth that(2) .
  qed
  show ?case
  proof (cases "falsy (client_embeddings e (length (embed_log w)) c) \<or> collection w k \<noteq> None")
    case True
    define w' where "w' = w\<lparr>embed_log := embed_log w @ [c]\<rparr>"
    from True have res: "ingest_chunk e p (m, c) (n, w) = (n, w')"
      unfolding k_def w'_def by (rule ingest_chunk_skip)
    have coll: "collection w' = collection w" by (simp add: w'_def)
    have new: "chunk_outcome e p w0 (cs @ [c]) m w'"
      using True same unfolding chunk_outcome_def coll k_def[symmetric] idx
      by (auto simp: m_def falsy_def split: option.splits)
    have "\<forall>i < length (cs @ [c]). chunk_outcome e p w0 (cs @ [c]) i w'"
    proof (intro allI impI)
      fix i assume "i < length (cs @ [c])"
      then consider "i < length cs" | "i = m" by (auto simp: m_def less_Suc_eq)
      then show "chunk_outcome e p w0 (cs @ [c]) i w'"
      proof cases
        case 1
        then show ?thesis by (rule old) (simp add: coll)
      next
        case 2
        with new show ?thesis by simp
      qed
    qed
    moreover have "\<forall>j. (\<forall>i < length (cs @ [c]). j \<noteq> doc_id p i) \<longrightarrow> collection w' j = collection w0 j"
      using other by (simp add: coll)
    moreover have "embed_log w' = embed_log w0 @ cs @ [c]" by (simp add: w'_def emb)
    moreover have "state_file w' = state_file w0" "extract_log w' = extract_log w0" "ocr_log w' = ocr_log w0"
      by (simp_all add: w'_def frame)
    ultimately show ?thesis unfolding step res by simp
  next
    case False
    then obtain v where v: "client_embeddings e (length (embed_log w)) c = Some v" "v \<noteq> []"
      and none: "collection w k = None"
      by (auto simp: falsy_def split: option.splits)
    define md where "md = \<lparr>filename = name p, chunk_index = m, timestamp = time_time e (length (add_log w))\<rparr>"
    define w' where "w' = collection_add k v c md (w\<lparr>embed_log := embed_log w @ [c]\<rparr>)"
    have res: "ingest_chunk e p (m, c) (n, w) = (n + 1, w')"
      unfolding w'_def md_def k_def using v none[unfolded k_def] by (rule ingest_chunk_add)
    have coll: "collection w' = (collection w)(k \<mapsto> \<lparr>entry_embedding = v, entry_document = c, entry_metadata = md\<rparr>)"
      by (simp add: w'_def collection_add_def)
    have new: "chunk_outcome e p w0 (cs @ [c]) m w'"
      using v none same unfolding chunk_outcome_def coll k_def[symmetric] idx
      by (auto simp: m_def md_def)
    have "\<forall>i < length (cs @ [c]). chunk_outcome e p w0 (cs @ [c]) i w'"
    proof (intro allI impI)
      fix i assume "i < length (cs @ [c])"
      then consider "i < length cs" | "i = m" by (auto simp: m_def less_Suc_eq)
      then show "chunk_outcome e p w0 (cs @ [c]) i w'"
      proof cases
        case 1
        with fresh have "doc_id p i \<noteq> k" by auto
        then have "collection w' (doc_id p i) = collection w (doc_id p i)" by (simp add: coll)
        with 1 show ?thesis by (rule old)
      next
        case 2
        with new show ?thesis by simp
      qed
    qed
    moreover have "\<forall>j. (\<forall>i < length (cs @ [c]). j \<noteq> doc_id p i) \<longrightarrow> collection w' j = collection w0 j"
    proof (intro allI impI)
      fix j assume a: "\<forall>i < length (cs @ [c]). j \<noteq> doc_id p i"
      then have "j \<noteq> k" by (simp add: k_def m_def)
      moreover from a have "\<forall>i < length cs. j \<noteq> doc_id p i" by simp
      ultimately show "collection w' j = collection w0 j" using other by (simp add: coll)
    qed
    moreover have "embed_log w' = embed_log w0 @ cs @ [c]" by (simp add: w'_def emb collection_add_def)
    moreover have "state_file w' = state_file w0" "extract_log w' = extract_log w0" "ocr_log w' = ocr_log w0"
      by (simp_all add: w'_def frame collection_add_def)
    ultimately show ?thesis unfolding step res by simp
  qed
qed

lemma ingest_loop_frame:
  "state_file (snd (ingest_loop e p (enumerate_list cs) (n0, w0))) = state_file w0"
  "extract_log (snd (ingest_loop e p (enumerate_list cs) (n0, w0))) = extract_log w0"
  "embed_log (snd (ingest_loop e p (enumerate_list cs) (n0, w0))) = embed_log w0 @ cs"
  using ingest_loop_invariant[of e p cs n0 w0] by auto

lemma ingest_loop_outcome:
  "i < length cs \<Longrightarrow> chunk_outcome e p w0 cs i (snd (ingest_loop e p (enumerate_list cs) (n0, w0)))"
  using ingest_loop_invariant[of e p cs n0 w0] by auto

subsection \<open>The four ways through \<^verbatim>\<open>ingest_single_pdf\<close>\<close>

lemma ingest_unfold:
  "ingest_single_pdf e p w =
     (case st_mtime e p of
        None \<Rightarrow> Some (Inl FileNotFoundError)
      | Some mtime \<Rightarrow>
          if mtime \<le> state_get (load_state w) (name p) then Some (Inr w)
          else if fst (read_document e p w) = [] then Some (Inr (snd (read_document e p w)))
          else
            (case chunk_text (fst (read_document e p w)) CHUNK_SIZE CHUNK_OVERLAP of
               None \<Rightarrow> None
             | Some chunks \<Rightarrow>
                 Some (Inr (save_state ((load_state w)(name p \<mapsto> mtime))
                   (snd (ingest_loop e p (enumerate_list chunks) (0, snd (read_document e p w))))))))"
  by (simp add: ingest_single_pdf_def read_document_def Let_def split: prod.splits option.splits)

lemma ingest_skip:
  "st_mtime e p = Some mtime \<Longrightarrow> mtime \<le> state_get (load_state w) (name p) \<Longrightarrow>
   ingest_single_pdf e p w = Some (Inr w)"
  by (simp add: ingest_unfold)

lemma ingest_empty:
  "st_mtime e p = Some mtime \<Longrightarrow> \<not> mtime \<le> state_get (load_state w) (name p) \<Longrightarrow>
   fst (read_document e p w) = [] \<Longrightarrow>
   ingest_single_pdf e p w = Some (Inr (snd (read_document e p w)))"
  by (simp add: ingest_unfold)

lemma ingest_full:
  "st_mtime e p = Some mtime \<Longrightarrow> \<not> mtime \<le> state_get (load_state w) (name p) \<Longrightarrow>
   fst (read_document e p w) \<noteq> [] \<Longrightarrow>
   chunk_text (fst (read_document e p w)) CHUNK_SIZE CHUNK_OVERLAP = Some chunks \<Longrightarrow>
   ingest_single_pdf e p w =
     Some (Inr (save_state ((load_state w)(name p \<mapsto> mtime))
       (snd (ingest_loop e p (enumerate_list chunks) (0, snd (read_document e p w))))))"
  by (simp add: ingest_unfold)

subsection \<open>The example runs\<close>

lemma doc_id_a: "doc_id doc_a 0 = ''a::chunk_0''"
  by code_simp

lemma chunk_text_hello: "chunk_text ''hello'' CHUNK_SIZE CHUNK_OVERLAP = Some [''hello'']"
  by (simp add: chunk_text_def chunk_loop.simps CHUNK_SIZE_def CHUNK_OVERLAP_def py_slice_def
      slice_span_def slice_index_def strip_def isspace_def)

lemma read_document_a:
  "read_document env_a doc_a w = (''hello'', w\<lparr>extract_log := extract_log w @ [doc_a, doc_a]\<rparr>)"
  by (simp add: read_document_def run_ocr_if_needed_def extract_text_from_pdf_def env_a_def
      strip_def isspace_def)

lemma read_document_scan:
  "fst (read_document env_scan doc_a w) = []"
  by (simp add: read_document_def run_ocr_if_needed_def extract_text_from_pdf_def env_a_def
      env_scan_def strip_def isspace_def doc_a_def)

lemma st_mtime_a:
  "st_mtime env_a doc_a = Some 5" "st_mtime env_scan doc_a = Some 5"
  by (simp_all add: env_a_def env_scan_def)

lemma ingest_a:
  assumes "state_get (load_state w) ''a.pdf'' < 5" and "collection w ''a::chunk_0'' = None"
  shows "ingest_single_pdf env_a doc_a w =
     Some (Inr (w\<lparr>state_file := Some ((load_state w)(''a.pdf'' \<mapsto> 5)),
                  collection := (collection w)(''a::chunk_0'' \<mapsto>
                     \<lparr>entry_embedding = [1, 2], entry_document = ''hello'',
                      entry_metadata = \<lparr>filename = ''a.pdf'', chunk_index = 0,
                                         timestamp = 9\<rparr>\<rparr>),
                  extract_log := extract_log w @ [doc_a, doc_a],
                  embed_log := embed_log w @ [''hello''],
                  add_log := add_log w @ [''a::chunk_0'']\<rparr>))"
proof -
  have n: "name doc_a = ''a.pdf''" by (simp add: doc_a_def)
  have "ingest_chunk env_a doc_a (0, ''hello'') (0, w\<lparr>extract_log := extract_log w @ [doc_a, doc_a]\<rparr>)
        = (1, collection_add ''a::chunk_0'' [1, 2] ''hello''
                \<lparr>filename = ''a.pdf'', chunk_index = 0, timestamp = 9\<rparr>
                (w\<lparr>extract_log := extract_log w @ [doc_a, doc_a], embed_log := embed_log w @ [''hello'']\<rparr>))"
    using assms(2)
    by (simp add: ingest_chunk_def embed_text_def collection_get_def doc_id_a env_a_def n)
  then show ?thesis
    using assms(1)
    by (simp add: ingest_unfold st_mtime_a n read_document_a chunk_text_hello enumerate_list_def
        save_state_def collection_add_def)
qed

lemma strip_replicate_a: "0 < n \<Longrightarrow> strip (replicate n (CHR ''a'')) = replicate n (CHR ''a'')"
  by (rule strip_trimmed) (simp add: trimmed_def isspace_def)

lemma chunk_text_long:
  "chunk_text text_long CHUNK_SIZE CHUNK_OVERLAP = Some [text_long, ''a'']"
proof -
  have "cursors (length text_long) CHUNK_SIZE CHUNK_OVERLAP 0 [0, 700]"
    by (simp add: text_long_def CHUNK_SIZE_def CHUNK_OVERLAP_def)
  from chunk_text_of_cursors(1)[OF this]
  have "chunk_text text_long CHUNK_SIZE CHUNK_OVERLAP = Some (emit text_long CHUNK_SIZE [0, 700])" .
  moreover have "py_slice text_long 0 (min (0 + CHUNK_SIZE) (int (length text_long))) = replicate 701 (CHR ''a'')"
    by (simp add: text_long_def CHUNK_SIZE_def py_slice_def slice_span_def slice_index_def)
  moreover have "py_slice text_long 700 (min (700 + CHUNK_SIZE) (int (length text_long))) = replicate 1 (CHR ''a'')"
    by (simp add: text_long_def CHUNK_SIZE_def py_slice_def slice_span_def slice_index_def)
  moreover have "strip ''a'' = ''a''" by (simp add: strip_def isspace_def)
  moreover have "strip (replicate 701 (CHR ''a'')) = replicate 701 (CHR ''a'')"
    by (rule strip_replicate_a) simp
  ultimately show ?thesis by (simp add: emit_def) (simp add: text_long_def)
qed

lemma read_document_long: "fst (read_document env_flaky doc_long w) = text_long"
proof -
  have "strip text_long = text_long" unfolding text_long_def by (rule strip_replicate_a) simp
  moreover have "text_long \<noteq> []" by (simp add: text_long_def)
  ultimately show ?thesis
    by (simp add: read_document_def run_ocr_if_needed_def extract_text_from_pdf_def env_flaky_def)
qed

lemma doc_id_long: "doc_id doc_long 0 = ''long::chunk_0''" "doc_id doc_long 1 = ''long::chunk_1''"
  by code_simp+

subsection \<open>Deduplication\<close>

text \<open>
  C1, as the code has it. When the identifier of a chunk is in the vector index at the
  time the loop of \<^verbatim>\<open>ingest_single_pdf\<close> processes the chunk, the index upsert is not invoked
  for it and the index stays as it is; but the embedding capability is invoked for it, since
  the loop embeds the chunk before it looks the identifier up. The only effect of the
  iteration is that one embedding request.
\<close>

theorem ingest_chunk_existing_id:
  assumes "collection w (doc_id p i) \<noteq> None"
  shows "ingest_chunk e p (i, chunk) (n, w) = (n, w\<lparr>embed_log := embed_log w @ [chunk]\<rparr>) \<and>
         collection (snd (ingest_chunk e p (i, chunk) (n, w))) = collection w \<and>
         add_log (snd (ingest_chunk e p (i, chunk) (n, w))) = add_log w \<and>
         embed_log (snd (ingest_chunk e p (i, chunk) (n, w))) = embed_log w @ [chunk]"
proof -
  from assms have "ingest_chunk e p (i, chunk) (n, w) = (n, w\<lparr>embed_log := embed_log w @ [chunk]\<rparr>)"
    by (intro ingest_chunk_skip) simp
  then show ?thesis by simp
qed

text \<open>
  The theorem of C1 for the chunk \<^verbatim>\<open>hello\<close> of \<^verbatim>\<open>a.pdf\<close> in an index that holds
  \<^verbatim>\<open>a::chunk_0\<close>.
\<close>

theorem ingest_chunk_existing_id_witness:
  "collection world_indexed (doc_id doc_a 0) \<noteq> None \<and>
   ingest_chunk env_a doc_a (0, ''hello'') (0, world_indexed) =
     (0, world_indexed\<lparr>embed_log := [''hello'']\<rparr>)"
proof -
  have h: "collection world_indexed (doc_id doc_a 0) \<noteq> None"
    by (simp add: world_indexed_def doc_id_a)
  have "embed_log world_indexed = []" by (simp add: world_indexed_def world_empty_def)
  with h ingest_chunk_existing_id[OF h, of env_a "''hello''" 0] show ?thesis by simp
qed

text \<open>
  C1 as it is stated fails: ingesting \<^verbatim>\<open>a.pdf\<close> into an index that already holds
  \<^verbatim>\<open>a::chunk_0\<close> sends the text of that chunk to the embedding service.
\<close>

theorem ingest_reembeds_counterexample:
  "collection world_indexed (doc_id doc_a 0) \<noteq> None \<and>
   map_option (map_sum id embed_log) (ingest_single_pdf env_a doc_a world_indexed)
     = Some (Inr [''hello''])"
proof -
  have n: "name doc_a = ''a.pdf''" by (simp add: doc_a_def)
  have h: "collection world_indexed (doc_id doc_a 0) \<noteq> None"
    by (simp add: world_indexed_def doc_id_a)
  have s: "\<not> 5 \<le> state_get (load_state world_indexed) (name doc_a)"
    by (simp add: world_indexed_def world_empty_def load_state_def state_get_def)
  have "ingest_single_pdf env_a doc_a world_indexed =
          Some (Inr (save_state ((load_state world_indexed)(name doc_a \<mapsto> 5))
            (snd (ingest_loop env_a doc_a (enumerate_list [''hello''])
                   (0, snd (read_document env_a doc_a world_indexed))))))"
    by (rule ingest_full[OF st_mtime_a(1) s]) (simp_all add: read_document_a chunk_text_hello)
  then have "map_option (map_sum id embed_log) (ingest_single_pdf env_a doc_a world_indexed)
      = Some (Inr (embed_log world_indexed @ [''hello'']))"
    by (simp add: save_state_def ingest_loop_frame read_document_frame)
  with h show ?thesis by (simp add: world_indexed_def world_empty_def)
qed

subsection \<open>Staleness check\<close>

text \<open>
  C2. For a document whose modification time \<open>mtime\<close> can be read, \<^verbatim>\<open>ingest_single_pdf\<close>
  returns, and it re-processes the document (it calls the extractor) if and only if the
  timestamp recorded in the state, 0 when there is none, is strictly below \<open>mtime\<close>. When
  \<open>mtime\<close> is equal to or below the recorded timestamp it returns at once in the world as
  it was: no extraction call and no embedding call.
\<close>

theorem ingest_reprocess_iff:
  assumes "st_mtime e p = Some mtime"
  shows "\<exists>w'. ingest_single_pdf e p w = Some (Inr w') \<and>
           (extract_log w' \<noteq> extract_log w \<longleftrightarrow> state_get (load_state w) (name p) < mtime) \<and>
           (mtime \<le> state_get (load_state w) (name p) \<longrightarrow>
              w' = w \<and> extract_log w' = extract_log w \<and> embed_log w' = embed_log w)"
proof (cases "mtime \<le> state_get (load_state w) (name p)")
  case True
  with assms have "ingest_single_pdf e p w = Some (Inr w)" by (rule ingest_skip)
  with True show ?thesis by auto
next
  case False
  define w2 where "w2 = snd (read_document e p w)"
  have ex: "extract_log w2 \<noteq> extract_log w" by (simp add: w2_def read_document_frame)
  show ?thesis
  proof (cases "fst (read_document e p w) = []")
    case True
    with assms False have "ingest_single_pdf e p w = Some (Inr w2)"
      unfolding w2_def by (rule ingest_empty)
    with False ex show ?thesis by auto
  next
    case nonempty: False
    from chunk_text_default_returns obtain chunks
      where c: "chunk_text (fst (read_document e p w)) CHUNK_SIZE CHUNK_OVERLAP = Some chunks" by blast
    define w3 where "w3 = snd (ingest_loop e p (enumerate_list chunks) (0, w2))"
    from assms False nonempty c
    have "ingest_single_pdf e p w = Some (Inr (save_state ((load_state w)(name p \<mapsto> mtime)) w3))"
      unfolding w3_def w2_def by (rule ingest_full)
    moreover have "extract_log (save_state ((load_state w)(name p \<mapsto> mtime)) w3) \<noteq> extract_log w"
      using ex by (simp add: save_state_def w3_def ingest_loop_frame)
    ultimately show ?thesis using False by auto
  qed
qed

text \<open>
  The theorem of C2 for \<^verbatim>\<open>a.pdf\<close>, modified at 5, with the state recording 5: nothing
  happens.
\<close>

theorem ingest_reprocess_iff_witness:
  "st_mtime env_a doc_a = Some 5 \<and>
   state_get (load_state world_done) (name doc_a) = 5 \<and>
   ingest_single_pdf env_a doc_a world_done = Some (Inr world_done)"
proof -
  have s: "state_get (load_state world_done) (name doc_a) = 5"
    by (simp add: world_done_def load_state_def state_get_def doc_a_def)
  from ingest_reprocess_iff[OF st_mtime_a(1), of world_done] s st_mtime_a(1)
  show ?thesis by auto
qed

subsection \<open>Idempotence\<close>

text \<open>
  C3. When a call of \<^verbatim>\<open>ingest_single_pdf\<close> has returned, a second call on the same document
  with the same collaborators (the document and its modification time are unchanged)
  returns as well, invokes no upsert, leaves the vector index as the first call left it, and
  leaves the state file as the first call left it.
\<close>

theorem ingest_twice_noop:
  assumes "ingest_single_pdf e p w = Some (Inr w1)"
  shows "\<exists>w2. ingest_single_pdf e p w1 = Some (Inr w2) \<and>
           collection w2 = collection w1 \<and> add_log w2 = add_log w1 \<and>
           state_file w2 = state_file w1"
proof -
  from assms obtain mtime where m: "st_mtime e p = Some mtime"
    by (cases "st_mtime e p") (simp_all add: ingest_unfold)
  show ?thesis
  proof (cases "mtime \<le> state_get (load_state w) (name p)")
    case True
    with m assms have "w1 = w" by (simp add: ingest_skip)
    with assms show ?thesis by simp
  next
    case False
    show ?thesis
    proof (cases "fst (read_document e p w) = []")
      case True
      with m False assms have w1: "w1 = snd (read_document e p w)" by (simp add: ingest_empty)
      then have "state_file w1 = state_file w" by (simp add: read_document_frame)
      then have "load_state w1 = load_state w" by (rule load_state_cong)
      with False have a: "\<not> mtime \<le> state_get (load_state w1) (name p)" by simp
      have b: "fst (read_document e p w1) = []"
        using True read_document_fst[of e p w1 w] by simp
      from m a b have "ingest_single_pdf e p w1 = Some (Inr (snd (read_document e p w1)))"
        by (rule ingest_empty)
      then show ?thesis by (simp add: read_document_frame)
    next
      case nonempty: False
      from chunk_text_default_returns obtain chunks
        where c: "chunk_text (fst (read_document e p w)) CHUNK_SIZE CHUNK_OVERLAP = Some chunks" by blast
      from ingest_full[OF m False nonempty c] assms
      have "state_file w1 = Some ((load_state w)(name p \<mapsto> mtime))"
        by (auto simp: save_state_def)
      then have "state_get (load_state w1) (name p) = mtime"
        by (simp add: load_state_def state_get_def)
      then have "mtime \<le> state_get (load_state w1) (name p)" by simp
      with m have "ingest_single_pdf e p w1 = Some (Inr w1)" by (rule ingest_skip)
      then show ?thesis by simp
    qed
  qed
qed

text \<open>
  The theorem of C3 for \<^verbatim>\<open>a.pdf\<close> and an empty index: the first call stores one record and
  the timestamp 5, the second changes neither.
\<close>

theorem ingest_twice_noop_witness:
  "ingest_single_pdf env_a doc_a world_empty =
     Some (Inr \<lparr>state_file = Some [''a.pdf'' \<mapsto> 5], collection = [''a::chunk_0'' \<mapsto> entry_a],
                extract_log = [doc_a, doc_a], ocr_log = [], embed_log = [''hello''],
                add_log = [''a::chunk_0'']\<rparr>) \<and>
   (\<exists>w2. ingest_single_pdf env_a doc_a
            \<lparr>state_file = Some [''a.pdf'' \<mapsto> 5], collection = [''a::chunk_0'' \<mapsto> entry_a],
             extract_log = [doc_a, doc_a], ocr_log = [], embed_log = [''hello''],
             add_log = [''a::chunk_0'']\<rparr> = Some (Inr w2) \<and>
          collection w2 = [''a::chunk_0'' \<mapsto> entry_a] \<and> add_log w2 = [''a::chunk_0''] \<and>
          state_file w2 = Some [''a.pdf'' \<mapsto> 5])"
proof -
  have run: "ingest_single_pdf env_a doc_a world_empty =
     Some (Inr \<lparr>state_file = Some [''a.pdf'' \<mapsto> 5], collection = [''a::chunk_0'' \<mapsto> entry_a],
                extract_log = [doc_a, doc_a], ocr_log = [], embed_log = [''hello''],
                add_log = [''a::chunk_0'']\<rparr>)"
    by (subst ingest_a) (simp_all add: world_empty_def load_state_def state_get_def entry_a_def)
  from ingest_twice_noop[OF run] run show ?thesis by simp
qed

subsection \<open>Documents without text\<close>

text \<open>
  C8. When the text extracted after the OCR fallback is empty, \<^verbatim>\<open>ingest_single_pdf\<close>
  returns without a call of the embedding service or of the upsert: the vector index and the
  state file are as before, so the recorded timestamp of the document is still strictly
  below its modification time and a later call does not skip the document.
\<close>

theorem ingest_empty_text_aborts:
  assumes "st_mtime e p = Some mtime" "state_get (load_state w) (name p) < mtime"
    and "fst (read_document e p w) = []"
  shows "\<exists>w'. ingest_single_pdf e p w = Some (Inr w') \<and>
           collection w' = collection w \<and> add_log w' = add_log w \<and> embed_log w' = embed_log w \<and>
           state_file w' = state_file w \<and> state_get (load_state w') (name p) < mtime"
proof -
  from assms(2) have "\<not> mtime \<le> state_get (load_state w) (name p)" by simp
  with assms(1) have r: "ingest_single_pdf e p w = Some (Inr (snd (read_document e p w)))"
    using assms(3) by (rule ingest_empty)
  have "load_state (snd (read_document e p w)) = load_state w"
    by (rule load_state_cong) (simp add: read_document_frame)
  with r assms(2) show ?thesis by (simp add: read_document_frame)
qed

text \<open>
  The theorem of C8 for the scan of \<^verbatim>\<open>a.pdf\<close>, with a state that records another
  document.
\<close>

theorem ingest_empty_text_aborts_witness:
  "st_mtime env_scan doc_a = Some 5 \<and> state_get (load_state world_other) (name doc_a) < 5 \<and>
   fst (read_document env_scan doc_a world_other) = [] \<and>
   (\<exists>w'. ingest_single_pdf env_scan doc_a world_other = Some (Inr w') \<and>
      collection w' = Map.empty \<and> add_log w' = [] \<and> embed_log w' = [] \<and>
      state_file w' = Some [''b.pdf'' \<mapsto> 7])"
proof -
  have s: "state_get (load_state world_other) (name doc_a) < 5"
    by (simp add: world_other_def world_empty_def load_state_def state_get_def doc_a_def)
  from ingest_empty_text_aborts[OF st_mtime_a(2) s read_document_scan]
  obtain w' where "ingest_single_pdf env_scan doc_a world_other = Some (Inr w')"
    "collection w' = collection world_other" "add_log w' = add_log world_other"
    "embed_log w' = embed_log world_other" "state_file w' = state_file world_other"
    by blast
  then have "\<exists>w'. ingest_single_pdf env_scan doc_a world_other = Some (Inr w') \<and>
      collection w' = Map.empty \<and> add_log w' = [] \<and> embed_log w' = [] \<and>
      state_file w' = Some [''b.pdf'' \<mapsto> 7]"
    by (simp add: world_other_def world_empty_def)
  with s show ?thesis by (simp add: st_mtime_a read_document_scan)
qed

subsection \<open>Embedding failures\<close>

text \<open>
  C9. In a run of \<^verbatim>\<open>ingest_single_pdf\<close> that reaches the loop, every chunk is sent to the
  embedding service, whatever happened to the chunks before it. A chunk whose request fails
  (or comes back empty) is not upserted: its identifier, when it was absent, is still absent.
  Every other chunk whose identifier was absent is stored with its embedding. The state then
  records the modification time of the document, so the next call with the same
  modification time returns at once and the failed chunk is not tried again.
\<close>

theorem ingest_embedding_failure:
  assumes "st_mtime e p = Some mtime" "state_get (load_state w) (name p) < mtime"
    and "fst (read_document e p w) \<noteq> []"
    and "chunk_text (fst (read_document e p w)) CHUNK_SIZE CHUNK_OVERLAP = Some chunks"
  shows "\<exists>w'. ingest_single_pdf e p w = Some (Inr w') \<and>
           embed_log w' = embed_log w @ chunks \<and>
           (\<forall>i < length chunks. chunk_outcome e p w chunks i w') \<and>
           load_state w' (name p) = Some mtime \<and>
           ingest_single_pdf e p w' = Some (Inr w')"
proof -
  define w2 where "w2 = snd (read_document e p w)"
  define w3 where "w3 = snd (ingest_loop e p (enumerate_list chunks) (0, w2))"
  define w' where "w' = save_state ((load_state w)(name p \<mapsto> mtime)) w3"
  from assms(2) have "\<not> mtime \<le> state_get (load_state w) (name p)" by simp
  with assms(1) have r: "ingest_single_pdf e p w = Some (Inr w')"
    using assms(3,4) unfolding w'_def w3_def w2_def by (rule ingest_full)
  have w2: "collection w2 = collection w" "embed_log w2 = embed_log w"
    by (simp_all add: w2_def read_document_frame)
  have emb: "embed_log w' = embed_log w @ chunks"
    by (simp add: w'_def save_state_def w3_def ingest_loop_frame w2)
  have out: "chunk_outcome e p w chunks i w'" if "i < length chunks" for i
  proof -
    from that have a: "chunk_outcome e p w2 chunks i w3" unfolding w3_def by (rule ingest_loop_outcome)
    have b: "collection w' = collection w3" by (simp add: w'_def save_state_def)
    show ?thesis using a unfolding chunk_outcome_def w2 b .
  qed
  have st: "load_state w' (name p) = Some mtime"
    by (simp add: w'_def save_state_def load_state_def)
  then have "mtime \<le> state_get (load_state w') (name p)" by (simp add: state_get_def)
  with assms(1) have "ingest_single_pdf e p w' = Some (Inr w')" by (rule ingest_skip)
  with r emb out st show ?thesis by blast
qed

text \<open>
  The theorem of C9 for the document of 701 characters: the request for the first chunk
  fails, the second chunk is stored, the state records the document.
\<close>

theorem ingest_embedding_failure_witness:
  "st_mtime env_flaky doc_long = Some 5 \<and>
   state_get (load_state world_empty) (name doc_long) < 5 \<and>
   fst (read_document env_flaky doc_long world_empty) \<noteq> [] \<and>
   chunk_text (fst (read_document env_flaky doc_long world_empty)) CHUNK_SIZE CHUNK_OVERLAP
     = Some [text_long, ''a''] \<and>
   falsy (client_embeddings env_flaky 0 text_long) \<and>
   (\<exists>w' t. ingest_single_pdf env_flaky doc_long world_empty = Some (Inr w') \<and>
      embed_log w' = [text_long, ''a''] \<and>
      collection w' ''long::chunk_0'' = None \<and>
      collection w' ''long::chunk_1'' =
        Some \<lparr>entry_embedding = [1, 2], entry_document = ''a'',
              entry_metadata = \<lparr>filename = ''long.pdf'', chunk_index = 1, timestamp = t\<rparr>\<rparr> \<and>
      load_state w' ''long.pdf'' = Some 5 \<and>
      ingest_single_pdf env_flaky doc_long w' = Some (Inr w'))"
proof -
  have n: "name doc_long = ''long.pdf''" by (simp add: doc_long_def)
  have m: "st_mtime env_flaky doc_long = Some 5" by (simp add: env_flaky_def)
  have s: "state_get (load_state world_empty) (name doc_long) < 5"
    by (simp add: world_empty_def load_state_def state_get_def)
  have t: "fst (read_document env_flaky doc_long world_empty) \<noteq> []"
    by (simp add: read_document_long text_long_def)
  have c: "chunk_text (fst (read_document env_flaky doc_long world_empty)) CHUNK_SIZE CHUNK_OVERLAP
     = Some [text_long, ''a'']" by (simp add: read_document_long chunk_text_long)
  have f: "client_embeddings env_flaky 0 text_long = None"
    "client_embeddings env_flaky (Suc 0) ''a'' = Some [1, 2]" by (simp_all add: env_flaky_def)
  have e: "collection world_empty = Map.empty" "embed_log world_empty = []"
    by (simp_all add: world_empty_def)
  from ingest_embedding_failure[OF m s t c]
  obtain w' where w': "ingest_single_pdf env_flaky doc_long world_empty = Some (Inr w')"
    "embed_log w' = embed_log world_empty @ [text_long, ''a'']"
    "\<forall>i < length [text_long, ''a'']. chunk_outcome env_flaky doc_long world_empty [text_long, ''a''] i w'"
    "load_state w' (name doc_long) = Some 5"
    "ingest_single_pdf env_flaky doc_long w' = Some (Inr w')"
    by blast
  from w'(3) have "chunk_outcome env_flaky doc_long world_empty [text_long, ''a''] 0 w'"
    and "chunk_outcome env_flaky doc_long world_empty [text_long, ''a''] (Suc 0) w'" by simp_all
  then have "collection w' ''long::chunk_0'' = None"
    and "\<exists>t. collection w' ''long::chunk_1'' =
        Some \<lparr>entry_embedding = [1, 2], entry_document = ''a'',
              entry_metadata = \<lparr>filename = ''long.pdf'', chunk_index = 1, timestamp = t\<rparr>\<rparr>"
    using doc_id_long by (simp_all add: chunk_outcome_def e f n)
  with w' have "\<exists>w' t. ingest_single_pdf env_flaky doc_long world_empty = Some (Inr w') \<and>
      embed_log w' = [text_long, ''a''] \<and>
      collection w' ''long::chunk_0'' = None \<and>
      collection w' ''long::chunk_1'' =
        Some \<lparr>entry_embedding = [1, 2], entry_document = ''a'',
              entry_metadata = \<lparr>filename = ''long.pdf'', chunk_index = 1, timestamp = t\<rparr>\<rparr> \<and>
      load_state w' ''long.pdf'' = Some 5 \<and>
      ingest_single_pdf env_flaky doc_long w' = Some (Inr w')"
    by (auto simp: n e)
  with s t c f m show ?thesis by (simp add: falsy_def)
qed

subsection \<open>Frame of the state\<close>

text \<open>
  C10. A call of \<^verbatim>\<open>ingest_single_pdf\<close> that returns leaves the entry of every file name
  other than the document's own as it was: the state read after the call has the same
  timestamp, or none, for it as the state read before.
\<close>

theorem ingest_state_frame:
  assumes "ingest_single_pdf e p w = Some (Inr w')" and "f \<noteq> name p"
  shows "load_state w' f = load_state w f"
proof -
  from assms(1) obtain mtime where m: "st_mtime e p = Some mtime"
    by (cases "st_mtime e p") (simp_all add: ingest_unfold)
  show ?thesis
  proof (cases "mtime \<le> state_get (load_state w) (name p)")
    case True
    with m assms(1) show ?thesis by (simp add: ingest_skip)
  next
    case False
    show ?thesis
    proof (cases "fst (read_document e p w) = []")
      case True
      with m False assms(1) have "w' = snd (read_document e p w)" by (simp add: ingest_empty)
      then have "state_file w' = state_file w" by (simp add: read_document_frame)
      then show ?thesis by (simp add: load_state_def)
    next
      case nonempty: False
      from chunk_text_default_returns obtain chunks
        where c: "chunk_text (fst (read_document e p w)) CHUNK_SIZE CHUNK_OVERLAP = Some chunks" by blast
      from ingest_full[OF m False nonempty c] assms(1)
      have "state_file w' = Some ((load_state w)(name p \<mapsto> mtime))"
        by (auto simp: save_state_def)
      with assms(2) show ?thesis by (simp add: load_state_def)
    qed
  qed
qed

text \<open>
  The theorem of C10 for \<^verbatim>\<open>a.pdf\<close> with a state that records \<^verbatim>\<open>b.pdf\<close> at 7.
\<close>

theorem ingest_state_frame_witness:
  "''b.pdf'' \<noteq> name doc_a \<and>
   (\<exists>w'. ingest_single_pdf env_a doc_a world_other = Some (Inr w') \<and>
      load_state w' ''a.pdf'' = Some 5 \<and> load_state w' ''b.pdf'' = Some 7)"
proof -
  have d: "''b.pdf'' \<noteq> name doc_a" by (simp add: doc_a_def)
  have "state_get (load_state world_other) ''a.pdf'' < 5" "collection world_other ''a::chunk_0'' = None"
    by (simp_all add: world_other_def world_empty_def load_state_def state_get_def)
  from ingest_a[OF this] obtain w' where
    w': "ingest_single_pdf env_a doc_a world_other = Some (Inr w')" "load_state w' ''a.pdf'' = Some 5"
    by (simp add: load_state_def)
  from ingest_state_frame[OF w'(1) d] have "load_state w' ''b.pdf'' = Some 7"
    by (simp add: world_other_def world_empty_def load_state_def)
  with w' d show ?thesis by blast
qed

section \<open>Properties of retrieval\<close>

text \<open>
  C7. \<^verbatim>\<open>retrieve_context\<close> returns two empty sequences, and does not raise, when the
  request for the embedding of the query fails, and also when the vector index is empty,
  given that the matches of a query are records of the index that was queried.
\<close>

theorem retrieve_context_empty:
  assumes "coll = Map.empty \<and> matches_stored e \<or> query_embeddings e query = None"
  shows "retrieve_context e coll query top_k = ([], [])"
proof (cases "query_embeddings e query")
  case None
  then show ?thesis by (simp add: retrieve_context_def)
next
  case (Some q_embed)
  with assms have empty: "coll = Map.empty" and sound: "matches_stored e" by simp_all
  show ?thesis
  proof (cases "collection_query e coll [q_embed] top_k")
    case None
    with Some show ?thesis by (simp add: retrieve_context_def)
  next
    case res: (Some r)
    from sound res empty have d: "\<forall>ds \<in> set (documents r). ds = []"
      and m: "\<forall>ms \<in> set (metadatas r). ms = []"
      unfolding matches_stored_def by (fastforce simp: ran_def)+
    show ?thesis
    proof (cases "documents r")
      case Nil
      with Some res show ?thesis by (simp add: retrieve_context_def)
    next
      case dc: (Cons docs ds)
      show ?thesis
      proof (cases "metadatas r")
        case Nil
        with Some res dc show ?thesis by (simp add: retrieve_context_def)
      next
        case (Cons metas ms)
        with d m dc have "docs = []" "metas = []" by simp_all
        with Some res dc Cons show ?thesis by (simp add: retrieve_context_def)
      qed
    qed
  qed
qed

lemma matches_stored_env_r: "matches_stored env_r"
  unfolding matches_stored_def env_r_def
  by (auto simp: ran_def split: option.splits)

text \<open>
  The theorem of C7 for an empty index; on an index with one record the same query
  returns that record.
\<close>

theorem retrieve_context_empty_witness:
  "matches_stored env_r \<and> query_embeddings env_r ''what?'' \<noteq> None \<and>
   retrieve_context env_r Map.empty ''what?'' TOP_K = ([], []) \<and>
   retrieve_context env_r [''a::chunk_0'' \<mapsto> entry_a] ''what?'' TOP_K
     = ([''hello''], [\<lparr>filename = ''a.pdf'', chunk_index = 0, timestamp = 9\<rparr>])"
proof -
  have "retrieve_context env_r Map.empty ''what?'' TOP_K = ([], [])"
    using retrieve_context_empty[of Map.empty env_r "''what?''" TOP_K] matches_stored_env_r
    by simp
  moreover have "retrieve_context env_r [''a::chunk_0'' \<mapsto> entry_a] ''what?'' TOP_K
     = ([''hello''], [\<lparr>filename = ''a.pdf'', chunk_index = 0, timestamp = 9\<rparr>])"
    by (simp add: retrieve_context_def env_r_def entry_a_def)
  moreover have "query_embeddings env_r ''what?'' \<noteq> None" by (simp add: env_r_def)
  ultimately show ?thesis using matches_stored_env_r by simp
qed

end
